theory Spec2Isabelle
  imports Complex_Main "HOL-Library.AList"
begin

section \<open>Python strings\<close>

text \<open>
  A Python \<^verbatim>\<open>str\<close> is modelled as a \<^typ>\<open>string\<close>: one \<^typ>\<open>char\<close> per code point,
  for the code points below 256.  \<^verbatim>\<open>str.strip()\<close> and the regular expression class
  \<^verbatim>\<open>\s\<close> (on \<^verbatim>\<open>str\<close> patterns) both use Python's Unicode whitespace test, which on
  this range holds for 9..13, 28..32, 0x85 and 0xA0.
\<close>

definition py_isspace :: "char \<Rightarrow> bool" where
  "py_isspace c =
     (let n = (of_char c :: nat)
      in (9 \<le> n \<and> n \<le> 13) \<or> (28 \<le> n \<and> n \<le> 32) \<or> n = 0x85 \<or> n = 0xA0)"

definition py_strip :: "string \<Rightarrow> string" where
  "py_strip s = rev (dropWhile py_isspace (rev (dropWhile py_isspace s)))"

definition startswith :: "string \<Rightarrow> string \<Rightarrow> bool" where
  "startswith s p = (take (length p) s = p)"

definition endswith :: "string \<Rightarrow> string \<Rightarrow> bool" where
  "endswith s p = (length p \<le> length s \<and> drop (length s - length p) s = p)"

text \<open>\<^verbatim>\<open>str.find\<close> and \<^verbatim>\<open>str.rfind\<close> for a one-character needle: the index, or -1.\<close>

fun py_find :: "char \<Rightarrow> string \<Rightarrow> int" where
  "py_find c [] = -1"
| "py_find c (x # xs) =
     (if x = c then 0 else (let r = py_find c xs in if r = -1 then -1 else r + 1))"

definition py_rfind :: "char \<Rightarrow> string \<Rightarrow> int" where
  "py_rfind c s =
     (let r = py_find c (rev s) in if r = -1 then -1 else int (length s) - 1 - r)"

text \<open>The slice \<^verbatim>\<open>text[a:b]\<close> for \<open>0 \<le> a\<close> and \<open>0 \<le> b\<close>.\<close>

definition slice :: "string \<Rightarrow> nat \<Rightarrow> nat \<Rightarrow> string" where
  "slice s a b = take (b - a) (drop a s)"

abbreviation dquote :: char where "dquote \<equiv> CHR 0x22"
abbreviation backslash :: char where "backslash \<equiv> CHR 0x5C"

section \<open>The repair pipeline: textual stages (llm_client.py)\<close>

subsection \<open>\<^verbatim>\<open>_remove_trailing_commas\<close>\<close>

definition closer :: "char \<Rightarrow> bool" where
  "closer c = (c = CHR ''}'' \<or> c = CHR '']'')"

text \<open>
  One pass of \<^verbatim>\<open>_TRAILING_COMMA_RE.sub(r"\1", current)\<close> with the pattern
  \<^verbatim>\<open>,(\s*[}\]])\<close>: the text is scanned from the left; at a comma whose maximal run of
  following whitespace ends in a closing brace or bracket the comma is dropped, the
  whitespace and the closer are kept, and scanning goes on after the closer; any other
  character is copied.  (No whitespace character is a closer, so backtracking into
  the greedy \<^verbatim>\<open>\s*\<close> never finds another match.)
\<close>

function trailing_comma_sub :: "string \<Rightarrow> string" where
  "trailing_comma_sub [] = []"
| "trailing_comma_sub (c # cs) =
     (if c = CHR '','' then
        (case dropWhile py_isspace cs of
           [] \<Rightarrow> c # trailing_comma_sub cs
         | b # rest \<Rightarrow>
             if closer b then takeWhile py_isspace cs @ b # trailing_comma_sub rest
             else c # trailing_comma_sub cs)
      else c # trailing_comma_sub cs)"
  by pat_completeness auto
termination
proof (relation "measure length")
  fix c :: char and cs b rest
  assume "dropWhile py_isspace cs = b # rest"
  then have "length (b # rest) \<le> length cs"
    using length_dropWhile_le [of py_isspace cs] by simp
  then show "(rest, c # cs) \<in> measure length" by simp
qed simp_all

lemma tcs_other: "c \<noteq> CHR '','' \<Longrightarrow> trailing_comma_sub (c # cs) = c # trailing_comma_sub cs"
  by simp

lemma tcs_comma_end:
  "dropWhile py_isspace cs = [] \<Longrightarrow>
   trailing_comma_sub (CHR '','' # cs) = CHR '','' # trailing_comma_sub cs"
  by (simp del: dropWhile_eq_Nil_conv)

lemma tcs_comma_keep:
  "dropWhile py_isspace cs = b # rest \<Longrightarrow> \<not> closer b \<Longrightarrow>
   trailing_comma_sub (CHR '','' # cs) = CHR '','' # trailing_comma_sub cs"
  by simp

lemma tcs_comma_drop:
  "dropWhile py_isspace cs = b # rest \<Longrightarrow> closer b \<Longrightarrow>
   trailing_comma_sub (CHR '','' # cs) = takeWhile py_isspace cs @ b # trailing_comma_sub rest"
  by simp

lemma length_take_drop_space:
  "dropWhile py_isspace cs = b # rest \<Longrightarrow>
   length (takeWhile py_isspace cs) + Suc (length rest) = length cs"
  using takeWhile_dropWhile_id [of py_isspace cs] by (metis length_append length_Cons)

lemma length_trailing_comma_sub: "length (trailing_comma_sub s) \<le> length s"
proof (induction s rule: trailing_comma_sub.induct)
  case 1
  show ?case by simp
next
  case (2 c cs)
  show ?case
  proof (cases "c = CHR '',''")
    case False
    with 2 show ?thesis by (simp add: tcs_other del: trailing_comma_sub.simps)
  next
    case True
    show ?thesis
    proof (cases "dropWhile py_isspace cs")
      case Nil
      with True 2(1) show ?thesis
        by (simp add: tcs_comma_end del: trailing_comma_sub.simps dropWhile_eq_Nil_conv)
    next
      case (Cons b rest)
      show ?thesis
      proof (cases "closer b")
        case False
        with True Cons 2(3) show ?thesis
          by (simp add: tcs_comma_keep del: trailing_comma_sub.simps)
      next
        case cb: True
        have "length (trailing_comma_sub rest) \<le> length rest"
          using 2(2) [OF True Cons cb] .
        then show ?thesis
          using True cb length_take_drop_space [OF Cons] tcs_comma_drop [OF Cons cb]
          by (simp del: trailing_comma_sub.simps)
      qed
    qed
  qed
qed

lemma trailing_comma_sub_same_length:
  "length (trailing_comma_sub s) = length s \<Longrightarrow> trailing_comma_sub s = s"
proof (induction s rule: trailing_comma_sub.induct)
  case 1
  show ?case by simp
next
  case (2 c cs)
  show ?case
  proof (cases "c = CHR '',''")
    case False
    with "2.IH"(4) "2.prems" show ?thesis by (simp add: tcs_other del: trailing_comma_sub.simps)
  next
    case True
    show ?thesis
    proof (cases "dropWhile py_isspace cs")
      case Nil
      with True "2.IH"(1) "2.prems" show ?thesis
        by (simp add: tcs_comma_end del: trailing_comma_sub.simps dropWhile_eq_Nil_conv)
    next
      case (Cons b rest)
      show ?thesis
      proof (cases "closer b")
        case False
        with True Cons "2.IH"(3) "2.prems" show ?thesis
          by (simp add: tcs_comma_keep del: trailing_comma_sub.simps)
      next
        case cb: True
        have "length (trailing_comma_sub rest) \<le> length rest"
          by (rule length_trailing_comma_sub)
        then have "length (trailing_comma_sub (c # cs)) < length (c # cs)"
          using True cb length_take_drop_space [OF Cons] tcs_comma_drop [OF Cons cb]
          by (simp del: trailing_comma_sub.simps)
        with "2.prems" show ?thesis by simp
      qed
    qed
  qed
qed

text \<open>
  The loop \<^verbatim>\<open>while previous != current\<close>: substitute until a pass changes nothing.
\<close>

function trailing_comma_loop :: "string \<Rightarrow> string" where
  "trailing_comma_loop current =
     (let nxt = trailing_comma_sub current
      in if nxt = current then nxt else trailing_comma_loop nxt)"
  by pat_completeness auto
termination
proof (relation "measure length")
  fix current nxt
  assume "nxt = trailing_comma_sub current" and "nxt \<noteq> current"
  then have "length nxt \<noteq> length current"
    using trailing_comma_sub_same_length [of current] by auto
  then have "length nxt < length current"
    using length_trailing_comma_sub [of current] \<open>nxt = trailing_comma_sub current\<close> by simp
  then show "(nxt, current) \<in> measure length" by simp
qed simp

definition remove_trailing_commas :: "string \<Rightarrow> string" where
  "remove_trailing_commas text = (if text = [] then text else trailing_comma_loop text)"

declare trailing_comma_loop.simps [simp del]

subsection \<open>\<^verbatim>\<open>_strip_code_fences\<close> and \<^verbatim>\<open>_extract_json_object\<close>\<close>

definition strip_code_fences :: "string \<Rightarrow> string" where
  "strip_code_fences text =
     (let cleaned = py_strip text;
          cleaned = (if startswith cleaned ''```json'' then drop 7 cleaned else cleaned);
          cleaned = (if startswith cleaned ''```'' then drop 3 cleaned else cleaned);
          cleaned = (if endswith cleaned ''```'' then take (length cleaned - 3) cleaned
                     else cleaned)
      in py_strip cleaned)"

definition extract_json_object :: "string \<Rightarrow> string option" where
  "extract_json_object text =
     (if text = [] then None
      else
        (let start = py_find (CHR ''{'') text; end = py_rfind (CHR ''}'') text
         in if start = -1 \<or> end = -1 \<or> end \<le> start then None
            else Some (py_strip (slice text (nat start) (nat (end + 1))))))"

subsection \<open>\<^verbatim>\<open>_find_first_complete_json_object\<close>\<close>

text \<open>
  The loop \<^verbatim>\<open>for i in range(start, len(text))\<close> with its three variables
  \<^verbatim>\<open>depth\<close>, \<^verbatim>\<open>in_string\<close>, \<^verbatim>\<open>escaped\<close>; the last argument is \<^verbatim>\<open>text[i:]\<close>.
  Falling off the end of the text is \<^verbatim>\<open>return None\<close>.
\<close>

fun scan_object :: "string \<Rightarrow> nat \<Rightarrow> nat \<Rightarrow> int \<Rightarrow> bool \<Rightarrow> bool \<Rightarrow> string \<Rightarrow> string option" where
  "scan_object text start i depth in_string escaped [] = None"
| "scan_object text start i depth in_string escaped (ch # rest) =
     (if in_string then
        (if escaped then scan_object text start (i + 1) depth in_string False rest
         else if ch = backslash then scan_object text start (i + 1) depth in_string True rest
         else if ch = dquote then scan_object text start (i + 1) depth False escaped rest
         else scan_object text start (i + 1) depth in_string escaped rest)
      else
        (if ch = dquote then scan_object text start (i + 1) depth True escaped rest
         else if ch = CHR ''{'' then
           scan_object text start (i + 1) (depth + 1) in_string escaped rest
         else if ch = CHR ''}'' then
           (if depth - 1 = 0 then Some (py_strip (slice text start (i + 1)))
            else scan_object text start (i + 1) (depth - 1) in_string escaped rest)
         else scan_object text start (i + 1) depth in_string escaped rest))"

definition find_first_complete_json_object :: "string \<Rightarrow> string option" where
  "find_first_complete_json_object text =
     (if text = [] then None
      else
        (let start = py_find (CHR ''{'') text
         in if start = -1 then None
            else scan_object text (nat start) (nat start) 0 False False (drop (nat start) text)))"

definition is_likely_truncated_json :: "string \<Rightarrow> bool" where
  "is_likely_truncated_json text =
     (if text = [] \<or> CHR ''{'' \<notin> set text then False
      else find_first_complete_json_object text = None)"

subsection \<open>\<^verbatim>\<open>_escape_control_chars_in_strings\<close>\<close>

definition hex_digit :: "nat \<Rightarrow> char" where
  "hex_digit n = (if n < 10 then char_of (48 + n) else char_of (87 + n))"

text \<open>\<^verbatim>\<open>f"\\u{ord(ch):04x}"\<close> for a character below 0x20.\<close>

definition unicode_escape :: "char \<Rightarrow> string" where
  "unicode_escape ch =
     (let n = (of_char ch :: nat)
      in [backslash, CHR ''u'', CHR ''0'', CHR ''0'', hex_digit (n div 16), hex_digit (n mod 16)])"

fun escape_from :: "bool \<Rightarrow> bool \<Rightarrow> string \<Rightarrow> string" where
  "escape_from in_string escaped [] = []"
| "escape_from in_string escaped (ch # rest) =
     (if in_string then
        (if escaped then ch # escape_from in_string False rest
         else if ch = backslash then ch # escape_from in_string True rest
         else if ch = dquote then ch # escape_from False escaped rest
         else if ch = CHR 0x0D then
           (case rest of
              [] \<Rightarrow> [backslash, CHR ''n''] @ escape_from in_string escaped rest
            | nx # rest' \<Rightarrow>
                if nx = CHR 0x0A then [backslash, CHR ''n''] @ escape_from in_string escaped rest'
                else [backslash, CHR ''n''] @ escape_from in_string escaped rest)
         else if ch = CHR 0x0A then [backslash, CHR ''n''] @ escape_from in_string escaped rest
         else if ch = CHR 0x09 then [backslash, CHR ''t''] @ escape_from in_string escaped rest
         else if (of_char ch :: nat) < 0x20 then
           unicode_escape ch @ escape_from in_string escaped rest
         else ch # escape_from in_string escaped rest)
      else ch # escape_from (ch = dquote) escaped rest)"

definition escape_control_chars_in_strings :: "string \<Rightarrow> string" where
  "escape_control_chars_in_strings text =
     (if text = [] then text else escape_from False False text)"

section \<open>Exceptions\<close>

text \<open>
  The value of the local variable \<^verbatim>\<open>status_code\<close> in \<^verbatim>\<open>_generate_mistral\<close>: an integer,
  or the string \<^verbatim>\<open>"unknown"\<close>.
\<close>

datatype http_status = Code int | Unknown

text \<open>
  The messages of the \<^verbatim>\<open>RuntimeError\<close>s that \<^verbatim>\<open>_generate_mistral\<close> raises, one
  constructor per message template, with the values the template interpolates
  (the configured timeout and token budget of the timeout message are left out).
\<close>

datatype failure_message =
    Timeout_message
  | Network_message nat string
  | Rate_limit_message
  | Invalid_key_message
  | Http_message http_status string
  | Request_message string

datatype exn =
    RuntimeError failure_message
  | JSONParseError string string
  | ValidationError
  | ValueError
  | AttributeError
  | KeyError
  | TypeError
  | OtherException string

section \<open>The backend transport (llm_client.py, \<^verbatim>\<open>_generate_mistral\<close>)\<close>

text \<open>
  A \<^verbatim>\<open>requests.Response\<close>, as far as the transport reads it.  Its truth value is
  \<^verbatim>\<open>Response.__bool__\<close>, which the requests library defines as \<^verbatim>\<open>self.ok\<close>: true
  unless \<^verbatim>\<open>raise_for_status()\<close> would raise, that is unless the status is in 400..599.
\<close>

record response =
  status_code :: int

definition response_bool :: "response \<Rightarrow> bool" where
  "response_bool r = (\<not> (400 \<le> status_code r \<and> status_code r < 600))"

text \<open>
  What one execution of the \<^verbatim>\<open>try\<close> body does: it returns the reply's content, or
  raises.  \<^verbatim>\<open>HTTPError\<close> carries \<^verbatim>\<open>e.response\<close> (possibly \<^verbatim>\<open>None\<close>) and \<^verbatim>\<open>str(e)\<close>;
  \<^verbatim>\<open>Uncaught\<close> is any exception outside the \<^verbatim>\<open>requests\<close> hierarchy (a missing key
  in the decoded body, say), which no handler of the loop catches.
\<close>

datatype post_result =
    Content string
  | Timeout
  | ConnectionError string
  | ChunkedEncodingError string
  | HTTPError "response option" string
  | RequestException string
  | Uncaught exn

definition http_error_status :: "response option \<Rightarrow> http_status" where
  "http_error_status resp =
     (case resp of
        None \<Rightarrow> Unknown
      | Some r \<Rightarrow> if response_bool r then Code (status_code r) else Unknown)"

definition http_error_message :: "response option \<Rightarrow> string \<Rightarrow> failure_message" where
  "http_error_message resp e =
     (let status = http_error_status resp
      in if status = Code 429 then Rate_limit_message
         else if status = Code 401 then Invalid_key_message
         else Http_message status e)"

text \<open>
  The loop \<^verbatim>\<open>for attempt in range(max_retries)\<close>.  \<open>post\<close> gives the outcome of the
  request of each attempt; the fourth argument counts the attempts left; the last is
  the list of the \<^verbatim>\<open>time.sleep\<close> calls made so far.  The result is the exception raised
  or the value returned (\<^verbatim>\<open>None\<close> when the loop runs out), with the sleeps.
\<close>

fun mistral_attempts ::
  "(nat \<Rightarrow> post_result) \<Rightarrow> nat \<Rightarrow> nat \<Rightarrow> nat \<Rightarrow> nat list \<Rightarrow> (exn + string option) \<times> nat list" where
  "mistral_attempts post max_retries attempt 0 sleeps = (Inr None, sleeps)"
| "mistral_attempts post max_retries attempt (Suc left) sleeps =
     (case post attempt of
        Content c \<Rightarrow> (Inr (Some (py_strip c)), sleeps)
      | Timeout \<Rightarrow> (Inl (RuntimeError Timeout_message), sleeps)
      | ConnectionError e \<Rightarrow>
          if int attempt < int max_retries - 1
          then mistral_attempts post max_retries (attempt + 1) left (sleeps @ [(attempt + 1) * 3])
          else (Inl (RuntimeError (Network_message max_retries e)), sleeps)
      | ChunkedEncodingError e \<Rightarrow>
          if int attempt < int max_retries - 1
          then mistral_attempts post max_retries (attempt + 1) left (sleeps @ [(attempt + 1) * 3])
          else (Inl (RuntimeError (Network_message max_retries e)), sleeps)
      | HTTPError resp e \<Rightarrow> (Inl (RuntimeError (http_error_message resp e)), sleeps)
      | RequestException e \<Rightarrow> (Inl (RuntimeError (Request_message e)), sleeps)
      | Uncaught x \<Rightarrow> (Inl x, sleeps))"

definition generate_mistral :: "(nat \<Rightarrow> post_result) \<Rightarrow> (exn + string option) \<times> nat list" where
  "generate_mistral post = (let max_retries = 5 in mistral_attempts post max_retries 0 max_retries [])"

section \<open>JSON values\<close>

text \<open>
  What \<^verbatim>\<open>json.loads\<close> returns: \<^verbatim>\<open>None\<close>, a \<^verbatim>\<open>bool\<close>, an \<^verbatim>\<open>int\<close>, a \<^verbatim>\<open>float\<close>, a
  \<^verbatim>\<open>str\<close>, a \<^verbatim>\<open>list\<close> or a \<^verbatim>\<open>dict\<close> (keys in insertion order).  A \<^verbatim>\<open>float\<close> is
  taken as the real number it stands for; the values \<^verbatim>\<open>nan\<close> and \<^verbatim>\<open>inf\<close> are not
  represented.
\<close>

datatype json =
    JNull
  | JBool bool
  | JInt int
  | JFloat real
  | JStr string
  | JArr "json list"
  | JObj "(string \<times> json) list"

text \<open>Python's truth value of such a value (\<^verbatim>\<open>if x\<close>, \<^verbatim>\<open>not x\<close>, \<^verbatim>\<open>all([...])\<close>).\<close>

fun py_truthy :: "json \<Rightarrow> bool" where
  "py_truthy JNull = False"
| "py_truthy (JBool b) = b"
| "py_truthy (JInt n) = (n \<noteq> 0)"
| "py_truthy (JFloat x) = (x \<noteq> 0)"
| "py_truthy (JStr s) = (s \<noteq> [])"
| "py_truthy (JArr xs) = (xs \<noteq> [])"
| "py_truthy (JObj kvs) = (kvs \<noteq> [])"

text \<open>
  \<^verbatim>\<open>d.get(key, default)\<close>: only a \<^verbatim>\<open>dict\<close> has the method; on any other JSON value the
  attribute lookup raises \<^verbatim>\<open>AttributeError\<close>.
\<close>

fun py_get :: "json \<Rightarrow> string \<Rightarrow> json \<Rightarrow> exn + json" where
  "py_get (JObj kvs) key dflt = Inr (case map_of kvs key of None \<Rightarrow> dflt | Some v \<Rightarrow> v)"
| "py_get _ key dflt = Inl AttributeError"

subsection \<open>A JSON reader for concrete inputs\<close>

text \<open>
  \<^verbatim>\<open>json.loads\<close> belongs to Python's standard library.  The pipeline below takes it
  as a parameter \<open>loads\<close> (\<open>None\<close> standing for \<^verbatim>\<open>JSONDecodeError\<close>), and the general
  results hold for every such function.  For concrete inputs, \<open>json_loads\<close> reads the
  JSON texts whose numbers are integers and whose strings use only the one-letter
  escapes; on a text with a fraction, an exponent, a \<^verbatim>\<open>\u\<close> escape or one of the
  constants \<^verbatim>\<open>NaN\<close> and \<^verbatim>\<open>Infinity\<close> it returns \<open>None\<close> although Python would read it.
  The arguments \<open>n\<close> bound the nesting of calls; \<open>json_loads\<close> gives enough for the
  whole text.
\<close>

definition json_ws :: "char \<Rightarrow> bool" where
  "json_ws c = (c = CHR '' '' \<or> c = CHR 0x09 \<or> c = CHR 0x0A \<or> c = CHR 0x0D)"

definition skip_ws :: "string \<Rightarrow> string" where
  "skip_ws s = dropWhile json_ws s"

definition unescape :: "char \<Rightarrow> char option" where
  "unescape e =
     (if e = dquote then Some dquote
      else if e = backslash then Some backslash
      else if e = CHR ''/'' then Some (CHR ''/'')
      else if e = CHR ''b'' then Some (CHR 0x08)
      else if e = CHR ''f'' then Some (CHR 0x0C)
      else if e = CHR ''n'' then Some (CHR 0x0A)
      else if e = CHR ''r'' then Some (CHR 0x0D)
      else if e = CHR ''t'' then Some (CHR 0x09)
      else None)"

fun parse_string_body :: "string \<Rightarrow> string \<Rightarrow> (string \<times> string) option" where
  "parse_string_body acc [] = None"
| "parse_string_body acc [c] = (if c = dquote then Some (acc, []) else None)"
| "parse_string_body acc (c # e # cs) =
     (if c = dquote then Some (acc, e # cs)
      else if c = backslash then
        (case unescape e of
           None \<Rightarrow> None
         | Some ch \<Rightarrow> parse_string_body (acc @ [ch]) cs)
      else if (of_char c :: nat) < 0x20 then None
      else parse_string_body (acc @ [c]) (e # cs))"

definition is_digit :: "char \<Rightarrow> bool" where
  "is_digit c = (48 \<le> (of_char c :: nat) \<and> (of_char c :: nat) \<le> 57)"

definition digits_value :: "string \<Rightarrow> int" where
  "digits_value ds = foldl (\<lambda>acc d. 10 * acc + (int (of_char d) - 48)) 0 ds"

definition parse_int :: "string \<Rightarrow> (json \<times> string) option" where
  "parse_int s =
     (let neg = (s \<noteq> [] \<and> hd s = CHR ''-'');
          body = (if neg then tl s else s);
          ds = takeWhile is_digit body;
          ds = (if ds \<noteq> [] \<and> hd ds = CHR ''0'' then [CHR ''0''] else ds);
          rest = drop (length ds) body
      in if ds = [] then None
         else if rest \<noteq> [] \<and> (hd rest = CHR ''.'' \<or> hd rest = CHR ''e'' \<or> hd rest = CHR ''E'')
           then None
         else Some (JInt (if neg then - digits_value ds else digits_value ds), rest))"

fun parse_value :: "nat \<Rightarrow> string \<Rightarrow> (json \<times> string) option"
  and parse_elements :: "nat \<Rightarrow> json list \<Rightarrow> string \<Rightarrow> (json \<times> string) option"
  and parse_members :: "nat \<Rightarrow> (string \<times> json) list \<Rightarrow> string \<Rightarrow> (json \<times> string) option" where
  "parse_value 0 s = None"
| "parse_value (Suc n) s =
     (case s of
        [] \<Rightarrow> None
      | c # cs \<Rightarrow>
          if c = dquote then
            (case parse_string_body [] cs of
               None \<Rightarrow> None
             | Some (x, r) \<Rightarrow> Some (JStr x, r))
          else if c = CHR ''{'' then
            (case skip_ws cs of
               [] \<Rightarrow> None
             | d # r \<Rightarrow> if d = CHR ''}'' then Some (JObj [], r) else parse_members n [] (d # r))
          else if c = CHR ''['' then
            (case skip_ws cs of
               [] \<Rightarrow> None
             | d # r \<Rightarrow> if d = CHR '']'' then Some (JArr [], r) else parse_elements n [] (d # r))
          else if startswith s ''null'' then Some (JNull, drop 4 s)
          else if startswith s ''true'' then Some (JBool True, drop 4 s)
          else if startswith s ''false'' then Some (JBool False, drop 5 s)
          else parse_int s)"
| "parse_elements 0 acc s = None"
| "parse_elements (Suc n) acc s =
     (case parse_value n s of
        None \<Rightarrow> None
      | Some (v, r) \<Rightarrow>
          (case skip_ws r of
             [] \<Rightarrow> None
           | d # r' \<Rightarrow>
               if d = CHR '']'' then Some (JArr (acc @ [v]), r')
               else if d = CHR '','' then parse_elements n (acc @ [v]) (skip_ws r')
               else None))"
| "parse_members 0 acc s = None"
| "parse_members (Suc n) acc s =
     (case s of
        [] \<Rightarrow> None
      | q # cs \<Rightarrow>
          if q \<noteq> dquote then None
          else
            (case parse_string_body [] cs of
               None \<Rightarrow> None
             | Some (k, r) \<Rightarrow>
                 (case skip_ws r of
                    [] \<Rightarrow> None
                  | colon # r1 \<Rightarrow>
                      if colon \<noteq> CHR '':'' then None
                      else
                        (case parse_value n (skip_ws r1) of
                           None \<Rightarrow> None
                         | Some (v, r2) \<Rightarrow>
                             (case skip_ws r2 of
                                [] \<Rightarrow> None
                              | d # r3 \<Rightarrow>
                                  if d = CHR ''}'' then Some (JObj (AList.update k v acc), r3)
                                  else if d = CHR '','' then
                                    parse_members n (AList.update k v acc) (skip_ws r3)
                                  else None)))))"

definition json_loads :: "string \<Rightarrow> json option" where
  "json_loads s =
     (case parse_value (2 * length s + 2) (skip_ws s) of
        None \<Rightarrow> None
      | Some (v, r) \<Rightarrow> if skip_ws r = [] then Some v else None)"

section \<open>The repair pipeline (llm_client.py, \<^verbatim>\<open>generate_json\<close>)\<close>

text \<open>
  The pattern \<^verbatim>\<open>if x: try: return json.loads(x) except JSONDecodeError: pass\<close> for an
  optional string \<open>x\<close>: a value when \<open>x\<close> is a non-empty string that parses.
\<close>

definition try_loads :: "(string \<Rightarrow> 'j option) \<Rightarrow> string option \<Rightarrow> 'j option" where
  "try_loads loads x =
     (case x of None \<Rightarrow> None | Some c \<Rightarrow> if c = [] then None else loads c)"

text \<open>Python's \<^verbatim>\<open>x or y\<close> for an optional string \<open>x\<close>.\<close>

definition py_or :: "string option \<Rightarrow> string \<Rightarrow> string" where
  "py_or x y = (case x of None \<Rightarrow> y | Some c \<Rightarrow> if c = [] then y else c)"

text \<open>
  The continuation loop \<^verbatim>\<open>for i in range(max_continuations)\<close>.  \<open>generate\<close> gives the
  result of each call of \<^verbatim>\<open>self.generate\<close> made by one \<^verbatim>\<open>generate_json\<close>, by call number:
  call 0 is the first request, call \<open>i + 1\<close> the continuation of round \<open>i\<close>.  The prompt
  of a continuation (the last 1000 characters of the cleaned text) only reaches the
  backend and is not modelled.  The loop ends with \<open>Inl\<close> of what \<^verbatim>\<open>generate_json\<close>
  then raises or returns, or with \<open>Inr\<close> of the final \<^verbatim>\<open>combined\<close> text.
\<close>

fun continuation_rounds ::
  "(string \<Rightarrow> 'j option) \<Rightarrow> (nat \<Rightarrow> exn + string) \<Rightarrow> int \<Rightarrow> nat \<Rightarrow> nat \<Rightarrow> string
     \<Rightarrow> (exn + 'j) + string" where
  "continuation_rounds loads generate max_continuations i 0 combined = Inr combined"
| "continuation_rounds loads generate max_continuations i (Suc left) combined =
     (case generate (i + 1) of
        Inl e \<Rightarrow> Inl (Inl e)
      | Inr continuation \<Rightarrow>
          (let combined = combined @ strip_code_fences continuation;
               complete_after = find_first_complete_json_object combined
           in if py_or complete_after [] = [] then
                continuation_rounds loads generate max_continuations (i + 1) left combined
              else
                (case loads (py_or complete_after []) of
                   Some v \<Rightarrow> Inl (Inr v)
                 | None \<Rightarrow>
                     if int i < max_continuations - 1
                     then continuation_rounds loads generate max_continuations (i + 1) left combined
                     else Inr combined)))"

definition generate_json ::
  "(string \<Rightarrow> 'j option) \<Rightarrow> (nat \<Rightarrow> exn + string) \<Rightarrow> int \<Rightarrow> exn + 'j" where
  "generate_json loads generate max_continuations =
     (case generate 0 of
        Inl e \<Rightarrow> Inl e
      | Inr response \<Rightarrow>
          (let cleaned0 = strip_code_fences response;
               complete0 = find_first_complete_json_object cleaned0
           in case try_loads loads complete0 of
                Some v \<Rightarrow> Inr v
              | None \<Rightarrow>
                  (case loads response of
                     Some v \<Rightarrow> Inr v
                   | None \<Rightarrow>
                       (let cleaned = strip_code_fences response
                        in case loads cleaned of
                             Some v \<Rightarrow> Inr v
                           | None \<Rightarrow>
                               (let extracted = extract_json_object cleaned
                                in case try_loads loads extracted of
                                     Some v \<Rightarrow> Inr v
                                   | None \<Rightarrow>
                                       (let complete = find_first_complete_json_object cleaned
                                        in case try_loads loads complete of
                                             Some v \<Rightarrow> Inr v
                                           | None \<Rightarrow>
     (case (if max_continuations > 0 \<and> is_likely_truncated_json cleaned
            then continuation_rounds loads generate max_continuations 0
                   (nat max_continuations) cleaned
            else Inr cleaned) of
        Inl outcome \<Rightarrow> outcome
      | Inr combined \<Rightarrow>
          (let candidate = py_or complete (py_or extracted combined);
               repaired = remove_trailing_commas (escape_control_chars_in_strings candidate)
           in case loads repaired of
                Some v \<Rightarrow> Inr v
              | None \<Rightarrow>
                  Inl (JSONParseError response
                         (if repaired \<noteq> [] then repaired else cleaned))))))))))"

section \<open>The itinerary schema (models.py)\<close>

text \<open>
  \<^verbatim>\<open>Itinerary.model_validate(x).model_dump()\<close> belongs to the pydantic library; the
  agent below takes it as a parameter \<open>validate\<close>.  For concrete inputs,
  \<open>model_validate_dump\<close> follows the three classes of models.py field by field: required
  fields, defaults, unknown keys ignored, and the dumped dictionary in declaration
  order.  It accepts a scalar only from the JSON value of the declared type; the
  conversions of pydantic's lax mode (the string \<^verbatim>\<open>"3"\<close> for an \<^verbatim>\<open>int\<close>, say) are
  not modelled, and such inputs are rejected here.
\<close>

definition validate_str :: "json \<Rightarrow> json option" where
  "validate_str j = (case j of JStr s \<Rightarrow> Some j | _ \<Rightarrow> None)"

definition validate_optional_str :: "json \<Rightarrow> json option" where
  "validate_optional_str j = (case j of JNull \<Rightarrow> Some j | JStr s \<Rightarrow> Some j | _ \<Rightarrow> None)"

definition validate_bool :: "json \<Rightarrow> json option" where
  "validate_bool j = (case j of JBool b \<Rightarrow> Some j | _ \<Rightarrow> None)"

definition validate_int :: "json \<Rightarrow> json option" where
  "validate_int j = (case j of JInt n \<Rightarrow> Some j | _ \<Rightarrow> None)"

definition validate_list :: "(json \<Rightarrow> json option) \<Rightarrow> json \<Rightarrow> json option" where
  "validate_list f j =
     (case j of JArr xs \<Rightarrow> map_option JArr (those (map f xs)) | _ \<Rightarrow> None)"

definition required :: "(string \<times> json) list \<Rightarrow> string \<Rightarrow> (json \<Rightarrow> json option) \<Rightarrow> json option" where
  "required kvs key f = Option.bind (map_of kvs key) f"

definition optional ::
  "(string \<times> json) list \<Rightarrow> string \<Rightarrow> (json \<Rightarrow> json option) \<Rightarrow> json \<Rightarrow> json option" where
  "optional kvs key f dflt = (case map_of kvs key of None \<Rightarrow> Some dflt | Some v \<Rightarrow> f v)"

definition Activity :: "json \<Rightarrow> json option" where
  "Activity j =
     (case j of
        JObj kvs \<Rightarrow>
          Option.bind (required kvs ''name'' validate_str) (\<lambda>v1.
          Option.bind (required kvs ''location'' validate_str) (\<lambda>v2.
          Option.bind (required kvs ''duration'' validate_str) (\<lambda>v3.
          Option.bind (required kvs ''cost_estimate'' validate_str) (\<lambda>v4.
          Option.bind (required kvs ''indoor'' validate_bool) (\<lambda>v5.
          Option.bind (optional kvs ''description'' validate_optional_str JNull) (\<lambda>v6.
            Some (JObj [(''name'', v1), (''location'', v2), (''duration'', v3),
                        (''cost_estimate'', v4), (''indoor'', v5),
                        (''description'', v6)])))))))
      | _ \<Rightarrow> None)"

definition DayPlan :: "json \<Rightarrow> json option" where
  "DayPlan j =
     (case j of
        JObj kvs \<Rightarrow>
          Option.bind (required kvs ''day_number'' validate_int) (\<lambda>v1.
          Option.bind (required kvs ''date'' validate_str) (\<lambda>v2.
          Option.bind (required kvs ''morning'' Activity) (\<lambda>v3.
          Option.bind (required kvs ''afternoon'' Activity) (\<lambda>v4.
          Option.bind (required kvs ''evening'' Activity) (\<lambda>v5.
          Option.bind (optional kvs ''alternatives'' (validate_list Activity) (JArr [])) (\<lambda>v6.
          Option.bind (optional kvs ''notes'' validate_optional_str JNull) (\<lambda>v7.
            Some (JObj [(''day_number'', v1), (''date'', v2), (''morning'', v3),
                        (''afternoon'', v4), (''evening'', v5), (''alternatives'', v6),
                        (''notes'', v7)]))))))))
      | _ \<Rightarrow> None)"

definition Itinerary :: "json \<Rightarrow> json option" where
  "Itinerary j =
     (case j of
        JObj kvs \<Rightarrow>
          Option.bind (required kvs ''daily_plans'' (validate_list DayPlan)) (\<lambda>v1.
          Option.bind (optional kvs ''justifications'' (validate_list validate_str) (JArr [])) (\<lambda>v2.
          Option.bind (optional kvs ''checklist'' (validate_list validate_str) (JArr [])) (\<lambda>v3.
            Some (JObj [(''daily_plans'', v1), (''justifications'', v2),
                        (''checklist'', v3)]))))
      | _ \<Rightarrow> None)"

definition model_validate_dump :: "json \<Rightarrow> exn + json" where
  "model_validate_dump j = (case Itinerary j of None \<Rightarrow> Inl ValidationError | Some d \<Rightarrow> Inr d)"

section \<open>The planning agent (runner.py)\<close>

subsection \<open>Data\<close>

text \<open>The dictionary that \<^verbatim>\<open>geocode\<close> returns for a city it finds.\<close>

record geo_result =
  name :: json
  country :: json
  lat :: json
  lon :: json
  admin1 :: json

text \<open>One entry of the list that \<^verbatim>\<open>weather_or_empty\<close> returns.\<close>

record weather_day =
  date :: json
  temp_min :: json
  temp_max :: json
  precipitation_probability :: json
  wind_speed :: json
  description :: string

text \<open>
  The arguments of \<^verbatim>\<open>plan_trip\<close> (\<^verbatim>\<open>interests\<close> after \<^verbatim>\<open>interests or []\<close>), and
  \<^verbatim>\<open>self.collected_info\<close>: the request's fields, always present, and the keys
  \<^verbatim>\<open>"geocode"\<close>, \<^verbatim>\<open>"weather"\<close>, \<^verbatim>\<open>"itinerary"\<close> (\<open>None\<close> while the key is absent) and
  \<^verbatim>\<open>"weather_unavailable"\<close> (absent, or stored as \<^verbatim>\<open>True\<close>).
\<close>

record trip_request =
  destination :: string
  start_date :: string
  end_date :: string
  profile :: string
  budget :: string
  interests :: "string list"
  pace :: string
  constraints :: string

record collected_info = trip_request +
  geocode :: "geo_result option"
  weather :: "weather_day list option"
  weather_unavailable :: bool
  itinerary :: "json option"

text \<open>What an executed action returns: \<^verbatim>\<open>None\<close>, the geocode dictionary or the weather list.\<close>

datatype action_result = No_result | Geocode_result geo_result | Weather_result "weather_day list"

text \<open>
  An entry of \<^verbatim>\<open>self.action_history\<close>, \<^verbatim>\<open>f"{action}: {action_input} -> {result}"\<close>, kept
  as its three parts.
\<close>

type_synonym action_record = "json \<times> json \<times> action_result"

text \<open>
  The lines of the log.  The header of an iteration and the lines that print a value
  keep it; \<open>Note\<close> is a line of fixed text (written here without accents).
\<close>

datatype log_entry =
    Iteration_header nat
  | Thought json
  | Action_line json json
  | New_action json json
  | Observation action_result
  | Error_line exn
  | Note string

text \<open>
  The state a run works on: the agent's two attributes and the local list \<^verbatim>\<open>logs\<close>.
\<close>

record state =
  collected_info :: collected_info
  action_history :: "action_record list"
  logs :: "log_entry list"

definition log_append :: "log_entry \<Rightarrow> state \<Rightarrow> state" where
  "log_append message st = st\<lparr>logs := logs st @ [message]\<rparr>"

text \<open>\<^verbatim>\<open>"error"\<close> in the result: \<^verbatim>\<open>str(e)\<close> of an exception, or a literal.\<close>

datatype error_text = Str_of exn | Literal string

text \<open>\<^verbatim>\<open>"metrics"\<close> without its wall-clock \<^verbatim>\<open>execution_time\<close>.\<close>

record metrics =
  iterations :: nat
  actions_count :: nat

text \<open>The dictionary \<^verbatim>\<open>plan_trip\<close> returns; a key the code leaves out is \<open>None\<close>.\<close>

record run_result =
  res_itinerary :: json
  res_logs :: "log_entry list"
  res_weather :: "weather_day list"
  res_success :: bool
  res_error :: "error_text option"
  res_metrics :: "metrics option"

text \<open>The agent's settings, with the constructor's defaults.\<close>

record agent_config =
  max_iterations :: int
  enable_self_correction :: bool

definition default_config :: agent_config where
  "default_config = \<lparr>max_iterations = 5, enable_self_correction = True\<rparr>"

text \<open>
  The outside world of one iteration: what each call that leaves the agent answers.
  \<open>decision\<close> is the \<^verbatim>\<open>generate_json\<close> call that opens the iteration, \<open>geocode_call\<close>
  and \<open>weather_call\<close> are the two tools (\<open>None\<close>: city not found), \<open>plan_call\<close> gives
  \<^verbatim>\<open>generate_json\<close> for each attempt of \<^verbatim>\<open>_execute_plan\<close>, \<open>critique_call\<close> and
  \<open>corrector_call\<close> the two \<^verbatim>\<open>generate_json\<close> calls of \<^verbatim>\<open>_self_correct\<close>.
\<close>

record world =
  decision :: "exn + json"
  geocode_call :: "exn + geo_result option"
  weather_call :: "exn + weather_day list"
  plan_call :: "nat \<Rightarrow> exn + json"
  critique_call :: "exn + json"
  corrector_call :: "exn + json"

subsection \<open>\<^verbatim>\<open>_execute_geocode\<close> and \<^verbatim>\<open>_execute_weather\<close>\<close>

definition execute_geocode :: "world \<Rightarrow> json \<Rightarrow> state \<Rightarrow> state \<times> (exn + action_result)" where
  "execute_geocode w action_input st =
     (case py_get action_input ''city'' JNull of
        Inl e \<Rightarrow> (st, Inl e)
      | Inr city \<Rightarrow>
          if \<not> py_truthy city then
            (log_append (Note ''ERREUR: Pas de ville specifiee pour GEOCODE'') st, Inr No_result)
          else
            (case geocode_call w of
               Inl e \<Rightarrow> (st, Inl e)
             | Inr None \<Rightarrow> (log_append (Note ''ERREUR: Ville non trouvee'') st, Inr No_result)
             | Inr (Some result) \<Rightarrow>
                 (log_append (Observation (Geocode_result result))
                    (st\<lparr>collected_info := (collected_info st)\<lparr>geocode := Some result\<rparr>\<rparr>),
                  Inr (Geocode_result result))))"

definition execute_weather :: "world \<Rightarrow> json \<Rightarrow> state \<Rightarrow> state \<times> (exn + action_result)" where
  "execute_weather w action_input st =
     (case py_get action_input ''lat'' JNull of
        Inl e \<Rightarrow> (st, Inl e)
      | Inr lat' \<Rightarrow>
     (case py_get action_input ''lon'' JNull of
        Inl e \<Rightarrow> (st, Inl e)
      | Inr lon' \<Rightarrow>
     (case py_get action_input ''start_date'' JNull of
        Inl e \<Rightarrow> (st, Inl e)
      | Inr start_date' \<Rightarrow>
     (case py_get action_input ''end_date'' JNull of
        Inl e \<Rightarrow> (st, Inl e)
      | Inr end_date' \<Rightarrow>
          if \<not> (py_truthy lat' \<and> py_truthy lon' \<and> py_truthy start_date' \<and> py_truthy end_date') then
            (log_append (Note ''ERREUR: Parametres manquants pour WEATHER'') st, Inr No_result)
          else
            (case weather_call w of
               Inl e \<Rightarrow> (st, Inl e)
             | Inr weather' \<Rightarrow>
                 if weather' \<noteq> [] then
                   (log_append (Observation (Weather_result weather'))
                      (st\<lparr>collected_info := (collected_info st)\<lparr>weather := Some weather'\<rparr>\<rparr>),
                    Inr (Weather_result weather'))
                 else
                   ((log_append (Note ''-> L'itineraire sera genere sans adaptation meteo'')
                      (log_append (Note ''AVERTISSEMENT: Impossible de recuperer la meteo'') st))
                      \<lparr>collected_info :=
                         (collected_info st)\<lparr>weather := Some [], weather_unavailable := True\<rparr>\<rparr>,
                    Inr (Weather_result [])))))))"

subsection \<open>\<^verbatim>\<open>_execute_plan\<close>\<close>

text \<open>
  \<^verbatim>\<open>JSONParseError\<close> is a \<^verbatim>\<open>ValueError\<close>, and so is pydantic's \<^verbatim>\<open>ValidationError\<close>;
  these are the exceptions the retry loop of \<^verbatim>\<open>_execute_plan\<close> handles.
\<close>

fun is_JSONParseError :: "exn \<Rightarrow> bool" where
  "is_JSONParseError (JSONParseError r c) = True"
| "is_JSONParseError _ = False"

fun is_ValueError :: "exn \<Rightarrow> bool" where
  "is_ValueError (JSONParseError r c) = True"
| "is_ValueError ValidationError = True"
| "is_ValueError ValueError = True"
| "is_ValueError _ = False"

text \<open>
  The loop \<^verbatim>\<open>for attempt in range(max_retries)\<close> of \<^verbatim>\<open>_execute_plan\<close>; \<open>validate\<close> is
  \<^verbatim>\<open>Itinerary.model_validate(...).model_dump()\<close>.  A loop that runs out returns \<^verbatim>\<open>None\<close>
  (\<open>JNull\<close>).
\<close>

fun plan_attempts ::
  "(json \<Rightarrow> exn + json) \<Rightarrow> world \<Rightarrow> nat \<Rightarrow> nat \<Rightarrow> nat \<Rightarrow> state \<Rightarrow> state \<times> (exn + json)" where
  "plan_attempts validate w max_retries attempt 0 st = (st, Inr JNull)"
| "plan_attempts validate w max_retries attempt (Suc left) st =
     (case (case plan_call w attempt of Inl e \<Rightarrow> Inl e | Inr reply \<Rightarrow> validate reply) of
        Inr itinerary' \<Rightarrow>
          (log_append (Note ''OBSERVATION: Itineraire genere'')
             (st\<lparr>collected_info := (collected_info st)\<lparr>itinerary := Some itinerary'\<rparr>\<rparr>),
           Inr itinerary')
      | Inl e \<Rightarrow>
          if is_JSONParseError e then
            (let st = log_append (Note ''Reponse du modele non-JSON'') st
             in if int attempt < int max_retries - 1
                then plan_attempts validate w max_retries (attempt + 1) left
                       (log_append (Note ''Erreur JSON, retry...'') st)
                else (log_append (Error_line e) st, Inl e))
          else if is_ValueError e then
            (if int attempt < int max_retries - 1
             then plan_attempts validate w max_retries (attempt + 1) left
                    (log_append (Note ''Erreur JSON, retry...'') st)
             else (log_append (Error_line e) st, Inl e))
          else (st, Inl e))"

definition weather_missing :: "collected_info \<Rightarrow> bool" where
  "weather_missing ci =
     (weather_unavailable ci \<or> (case weather ci of None \<Rightarrow> True | Some ws \<Rightarrow> ws = []))"

definition execute_plan :: "(json \<Rightarrow> exn + json) \<Rightarrow> world \<Rightarrow> state \<Rightarrow> state \<times> (exn + json)" where
  "execute_plan validate w st =
     (let st = log_append (Note ''ACTION: Generation de l'itineraire...'') st;
          st = (if weather_missing (collected_info st)
                then log_append (Note ''Mode degrade: generation sans donnees meteo'') st else st);
          max_retries = 2
      in plan_attempts validate w max_retries 0 max_retries st)"

subsection \<open>\<^verbatim>\<open>_self_correct\<close>\<close>

text \<open>\<^verbatim>\<open>len(x)\<close> and the elements of \<^verbatim>\<open>for issue in x\<close>, for a JSON value \<open>x\<close>.\<close>

fun py_iter :: "json \<Rightarrow> exn + json list" where
  "py_iter (JArr xs) = Inr xs"
| "py_iter (JStr s) = Inr (map (\<lambda>c. JStr [c]) s)"
| "py_iter (JObj kvs) = Inr (map (\<lambda>kv. JStr (fst kv)) kvs)"
| "py_iter _ = Inl TypeError"

text \<open>
  The loop that logs each issue, \<^verbatim>\<open>issue.get('type')\<close> and \<^verbatim>\<open>issue.get('description')\<close>.
\<close>

fun log_issues :: "json list \<Rightarrow> state \<Rightarrow> state \<times> (exn + unit)" where
  "log_issues [] st = (st, Inr ())"
| "log_issues (issue # issues) st =
     (case py_get issue ''type'' JNull of
        Inl e \<Rightarrow> (st, Inl e)
      | Inr t \<Rightarrow>
          (case py_get issue ''description'' JNull of
             Inl e \<Rightarrow> (st, Inl e)
           | Inr d \<Rightarrow> log_issues issues (log_append (Action_line t d) st)))"

text \<open>The body of the \<^verbatim>\<open>try\<close> of \<^verbatim>\<open>_self_correct\<close>.\<close>

definition self_correct_body :: "world \<Rightarrow> json \<Rightarrow> state \<Rightarrow> state \<times> (exn + json)" where
  "self_correct_body w itinerary' st =
     (case critique_call w of
        Inl e \<Rightarrow> (st, Inl e)
      | Inr critique \<Rightarrow>
     (case py_get critique ''is_valid'' (JBool False) of
        Inl e \<Rightarrow> (st, Inl e)
      | Inr is_valid \<Rightarrow>
     (case py_get critique ''issues'' (JArr []) of
        Inl e \<Rightarrow> (st, Inl e)
      | Inr issues \<Rightarrow>
     (case py_get critique ''suggestions'' (JArr []) of
        Inl e \<Rightarrow> (st, Inl e)
      | Inr suggestions \<Rightarrow>
          if py_truthy is_valid \<and> \<not> py_truthy issues then
            (log_append (Note ''VALIDATION: Itineraire OK, aucune correction necessaire'') st,
             Inr itinerary')
          else
            (case py_iter issues of
               Inl e \<Rightarrow> (st, Inl e)
             | Inr elements \<Rightarrow>
                 (case log_issues elements (log_append (Note ''PROBLEMES DETECTES'') st) of
                    (st, Inl e) \<Rightarrow> (st, Inl e)
                  | (st, Inr u) \<Rightarrow>
                      (let st = log_append (Note ''Correction de l'itineraire...'') st
                       in case corrector_call w of
                            Inl e \<Rightarrow> (st, Inl e)
                          | Inr corrected \<Rightarrow>
                              (log_append (Note ''CORRECTION: Itineraire corrige'') st,
                               Inr corrected))))))))"

text \<open>The lines \<^verbatim>\<open>_self_correct\<close> logs before its \<^verbatim>\<open>try\<close>.\<close>

definition critique_intro :: "state \<Rightarrow> state" where
  "critique_intro st =
     (let st = log_append (Note ''--- SELF-CORRECTION ---'') st;
          st = (if weather_missing (collected_info st)
                then log_append (Note ''Critique en mode degrade (sans meteo)'') st else st)
      in log_append (Note ''Critique de l'itineraire...'') st)"

definition self_correct :: "world \<Rightarrow> json \<Rightarrow> state \<Rightarrow> state \<times> json" where
  "self_correct w itinerary' st =
     (case self_correct_body w itinerary' (critique_intro st) of
        (st, Inr result) \<Rightarrow> (st, result)
      | (st, Inl e) \<Rightarrow>
          (log_append (Note ''Retour de l'itineraire original'')
             (log_append (Error_line e) st),
           itinerary'))"

subsection \<open>\<^verbatim>\<open>plan_trip\<close>\<close>

text \<open>
  The override rules at the head of an iteration: from the proposed action and its
  input, the action and input that are executed, and the lines logged on the way.
\<close>

definition override :: "collected_info \<Rightarrow> json \<Rightarrow> json \<Rightarrow> json \<times> json \<times> log_entry list" where
  "override ci action action_input =
     (case (if action = JStr ''GEOCODE'' then geocode ci else None) of
        Some geocode_data \<Rightarrow>
          (if weather ci = None then
             (let new_action = JStr ''WEATHER'';
                  new_input =
                    JObj [(''lat'', lat geocode_data), (''lon'', lon geocode_data),
                          (''start_date'', JStr (start_date ci)),
                          (''end_date'', JStr (end_date ci))]
              in (new_action, new_input,
                  [Action_line action action_input,
                   Note ''OVERRIDE: Geocodage deja effectue, passage a WEATHER ou PLAN'',
                   New_action new_action new_input]))
           else
             (JStr ''PLAN'', JObj [],
              [Action_line action action_input,
               Note ''OVERRIDE: Geocodage deja effectue, passage a WEATHER ou PLAN'',
               New_action (JStr ''PLAN'') (JObj [])]))
      | None \<Rightarrow>
          if action = JStr ''WEATHER'' \<and> weather ci \<noteq> None \<and> \<not> weather_unavailable ci then
            (JStr ''PLAN'', JObj [],
             [Action_line action action_input,
              Note ''OVERRIDE: Meteo deja recuperee, passage direct a PLAN'',
              New_action (JStr ''PLAN'') (JObj [])])
          else if action = JStr ''WEATHER'' \<and> weather_unavailable ci then
            (JStr ''PLAN'', JObj [],
             [Action_line action action_input,
              Note ''OVERRIDE: Meteo deja indisponible, passage direct a PLAN (mode degrade)'',
              New_action (JStr ''PLAN'') (JObj [])])
          else (action, action_input, [Action_line action action_input]))"

definition record_action :: "json \<Rightarrow> json \<Rightarrow> action_result \<Rightarrow> state \<Rightarrow> state" where
  "record_action action action_input result st =
     st\<lparr>action_history := action_history st @ [(action, action_input, result)]\<rparr>"

definition itinerary_or_empty :: "state \<Rightarrow> json" where
  "itinerary_or_empty st = (case itinerary (collected_info st) of None \<Rightarrow> JObj [] | Some i \<Rightarrow> i)"

definition weather_or_empty :: "state \<Rightarrow> weather_day list" where
  "weather_or_empty st = (case weather (collected_info st) of None \<Rightarrow> [] | Some ws \<Rightarrow> ws)"

text \<open>
  The body of the \<^verbatim>\<open>try\<close> of one iteration.  It raises (\<open>Inl\<close>), returns from
  \<^verbatim>\<open>plan_trip\<close> (\<open>Inr (Some r)\<close>), or reaches its end (\<open>Inr None\<close>).
\<close>

definition iteration_body ::
  "agent_config \<Rightarrow> (json \<Rightarrow> exn + json) \<Rightarrow> world \<Rightarrow> nat \<Rightarrow> state
     \<Rightarrow> state \<times> (exn + run_result option)" where
  "iteration_body cfg validate w iteration st =
     (case decision w of
        Inl e \<Rightarrow> (st, Inl e)
      | Inr reply \<Rightarrow>
     (case py_get reply ''thought'' (JStr []) of
        Inl e \<Rightarrow> (st, Inl e)
      | Inr thought \<Rightarrow>
     (case py_get reply ''action'' (JStr []) of
        Inl e \<Rightarrow> (st, Inl e)
      | Inr proposed \<Rightarrow>
     (case py_get reply ''action_input'' (JObj []) of
        Inl e \<Rightarrow> (st, Inl e)
      | Inr proposed_input \<Rightarrow>
          (let st = log_append (Thought thought) st
           in case override (collected_info st) proposed proposed_input of
                (action, action_input, lines) \<Rightarrow>
          (let st = st\<lparr>logs := logs st @ lines\<rparr>
           in if action = JStr ''GEOCODE'' then
                (case execute_geocode w action_input st of
                   (st, Inl e) \<Rightarrow> (st, Inl e)
                 | (st, Inr result) \<Rightarrow> (record_action action action_input result st, Inr None))
              else if action = JStr ''WEATHER'' then
                (case execute_weather w action_input st of
                   (st, Inl e) \<Rightarrow> (st, Inl e)
                 | (st, Inr result) \<Rightarrow> (record_action action action_input result st, Inr None))
              else if action = JStr ''PLAN'' then
                (case execute_plan validate w st of
                   (st, Inl e) \<Rightarrow> (st, Inl e)
                 | (st, Inr result) \<Rightarrow>
                     (case (if enable_self_correction cfg then self_correct w result st
                            else (st, result)) of
                        (st, final_itinerary) \<Rightarrow>
                          (st,
                           Inr (Some \<lparr>res_itinerary = final_itinerary,
                                      res_logs = logs st,
                                      res_weather = weather_or_empty st,
                                      res_success = True,
                                      res_error = None,
                                      res_metrics =
                                        Some \<lparr>iterations = iteration + 1,
                                              actions_count = length (action_history st)\<rparr>\<rparr>))))
              else if action = JStr ''FINISH'' then
                (let st = log_append (Note ''FINISH: Agent termine'') st
                 in (st,
                     Inr (Some \<lparr>res_itinerary = itinerary_or_empty st,
                                res_logs = logs st,
                                res_weather = weather_or_empty st,
                                res_success = True,
                                res_error = None,
                                res_metrics = None\<rparr>)))
              else
                (let st = log_append (Note ''ERREUR: Action inconnue'') st
                 in (record_action action action_input No_result st, Inr None))))))))"

text \<open>
  One pass of the loop: the header, the \<^verbatim>\<open>try\<close> body, and the handler
  \<^verbatim>\<open>except Exception\<close>, which returns the failure result.  \<open>None\<close>: go on with the next
  iteration.
\<close>

definition iteration ::
  "agent_config \<Rightarrow> (json \<Rightarrow> exn + json) \<Rightarrow> world \<Rightarrow> nat \<Rightarrow> state \<Rightarrow> state \<times> run_result option" where
  "iteration cfg validate w i st =
     (case iteration_body cfg validate w i (log_append (Iteration_header (i + 1)) st) of
        (st, Inr r) \<Rightarrow> (st, r)
      | (st, Inl e) \<Rightarrow>
          (let st = log_append (Error_line e) st
           in (st,
               Some \<lparr>res_itinerary = JObj [],
                     res_logs = logs st,
                     res_weather = [],
                     res_success = False,
                     res_error = Some (Str_of e),
                     res_metrics = None\<rparr>)))"

text \<open>
  The loop \<^verbatim>\<open>for iteration in range(self.max_iterations)\<close>; \<open>env i\<close> is the world of
  iteration \<open>i\<close>, the fourth argument counts the iterations left.
\<close>

fun plan_loop ::
  "agent_config \<Rightarrow> (json \<Rightarrow> exn + json) \<Rightarrow> (nat \<Rightarrow> world) \<Rightarrow> nat \<Rightarrow> nat \<Rightarrow> state
     \<Rightarrow> state \<times> run_result option" where
  "plan_loop cfg validate env i 0 st = (st, None)"
| "plan_loop cfg validate env i (Suc left) st =
     (case iteration cfg validate (env i) i st of
        (st, Some r) \<Rightarrow> (st, Some r)
      | (st, None) \<Rightarrow> plan_loop cfg validate env (i + 1) left st)"

definition initial_state :: "trip_request \<Rightarrow> state" where
  "initial_state req =
     \<lparr>collected_info =
        \<lparr>destination = destination req, start_date = start_date req,
         end_date = end_date req, profile = profile req, budget = budget req,
         interests = interests req, pace = pace req, constraints = constraints req,
         geocode = None, weather = None, weather_unavailable = False, itinerary = None\<rparr>,
      action_history = [],
      logs = []\<rparr>"

definition max_iterations_result :: "state \<Rightarrow> run_result" where
  "max_iterations_result st =
     \<lparr>res_itinerary = itinerary_or_empty st,
      res_logs = logs st,
      res_weather = weather_or_empty st,
      res_success = False,
      res_error = Some (Literal ''Max iterations''),
      res_metrics = None\<rparr>"

text \<open>
  \<^verbatim>\<open>plan_trip\<close>: the agent's state when it returns, and the result it returns.
\<close>

definition plan_trip ::
  "agent_config \<Rightarrow> (json \<Rightarrow> exn + json) \<Rightarrow> (nat \<Rightarrow> world) \<Rightarrow> trip_request \<Rightarrow> state \<times> run_result" where
  "plan_trip cfg validate env req =
     (case plan_loop cfg validate env 0 (nat (max_iterations cfg)) (initial_state req) of
        (st, Some r) \<Rightarrow> (st, r)
      | (st, None) \<Rightarrow>
          (let st = log_append (Note ''ATTENTION: Nombre max d'iterations atteint'') st
           in (st, max_iterations_result st)))"

section \<open>Concrete runs\<close>

text \<open>
  The request of the module's own test run, and a world in which nothing outside the
  agent answers: the backend times out, the city is unknown, no forecast comes back.
  The worlds of the examples below change it call by call.
\<close>

definition paris_request :: trip_request where
  "paris_request =
     \<lparr>destination = ''Paris'', start_date = ''2025-12-20'', end_date = ''2025-12-22'',
      profile = ''couple'', budget = ''moyen'', interests = [''musees'', ''gastronomie''],
      pace = ''calme'', constraints = ''''\<rparr>"

definition offline_world :: world where
  "offline_world =
     \<lparr>decision = Inl (RuntimeError Timeout_message),
      geocode_call = Inr None,
      weather_call = Inr [],
      plan_call = (\<lambda>attempt. Inl (RuntimeError Timeout_message)),
      critique_call = Inl (RuntimeError Timeout_message),
      corrector_call = Inl (RuntimeError Timeout_message)\<rparr>"

text \<open>A world whose backend proposes the given action with the given input.\<close>

definition proposing :: "string \<Rightarrow> json \<Rightarrow> world" where
  "proposing a input =
     offline_world\<lparr>decision :=
       Inr (JObj [(''thought'', JStr ''next''), (''action'', JStr a), (''action_input'', input)])\<rparr>"

definition paris_geo :: geo_result where
  "paris_geo =
     \<lparr>name = JStr ''Paris'', country = JStr ''France'', lat = JFloat 48.85,
      lon = JFloat 2.35, admin1 = JStr ''Ile-de-France''\<rparr>"

definition cold_day :: weather_day where
  "cold_day =
     \<lparr>date = JStr ''2025-12-20'', temp_min = JFloat 2, temp_max = JFloat 7,
      precipitation_probability = JInt 20, wind_speed = JFloat 12,
      description = ''Froid - Sec''\<rparr>"

definition weather_input :: json where
  "weather_input =
     JObj [(''lat'', JFloat 48.85), (''lon'', JFloat 2.35),
           (''start_date'', JStr ''2025-12-20''), (''end_date'', JStr ''2025-12-22'')]"

text \<open>The smallest itinerary the schema accepts, and its validated form.\<close>

definition empty_plan :: json where
  "empty_plan = JObj [(''daily_plans'', JArr [])]"

definition empty_itinerary :: json where
  "empty_itinerary =
     JObj [(''daily_plans'', JArr []), (''justifications'', JArr []), (''checklist'', JArr [])]"

section \<open>Notions the properties are stated with\<close>

subsection \<open>Balanced objects\<close>

text \<open>
  The texts the extraction is specified on, after the spec's words: a depth-balanced
  \<^verbatim>\<open>{...}\<close> object, in which the characters of quoted strings, escaped quotes and
  escaped backslashes included, are not structural.  \<open>string_chars\<close> is the inside of
  a string literal (a backslash takes the next character with it, and no other quote
  occurs); \<open>balanced\<close> is a run of plain characters, string literals and braced
  groups; \<open>object_text\<close> is one braced group.
\<close>

inductive string_chars :: "string \<Rightarrow> bool" where
  sc_end: "string_chars []"
| sc_plain: "c \<noteq> backslash \<Longrightarrow> c \<noteq> dquote \<Longrightarrow> string_chars s \<Longrightarrow> string_chars (c # s)"
| sc_escape: "string_chars s \<Longrightarrow> string_chars (backslash # c # s)"

inductive balanced :: "string \<Rightarrow> bool" where
  bal_end: "balanced []"
| bal_plain: "c \<noteq> CHR ''{'' \<Longrightarrow> c \<noteq> CHR ''}'' \<Longrightarrow> c \<noteq> dquote \<Longrightarrow> balanced s
              \<Longrightarrow> balanced (c # s)"
| bal_string: "string_chars t \<Longrightarrow> balanced s \<Longrightarrow> balanced (dquote # t @ dquote # s)"
| bal_group: "balanced b \<Longrightarrow> balanced s \<Longrightarrow> balanced (CHR ''{'' # b @ CHR ''}'' # s)"

definition object_text :: "string \<Rightarrow> bool" where
  "object_text obj = (\<exists>b. balanced b \<and> obj = CHR ''{'' # b @ [CHR ''}''])"

text \<open>
  What the scanner has to read at depth \<open>k\<close> before it returns: \<open>k\<close> balanced
  stretches, each ended by a closing brace.
\<close>

inductive closes :: "nat \<Rightarrow> string \<Rightarrow> bool" where
  closes_0: "closes 0 []"
| closes_Suc: "balanced b \<Longrightarrow> closes k w \<Longrightarrow> closes (Suc k) (b @ CHR ''}'' # w)"

subsection \<open>Trailing commas and string values\<close>

text \<open>
  A text has a trailing comma when some comma is followed by optional whitespace and
  then a closing brace or bracket.
\<close>

fun has_trailing_comma :: "string \<Rightarrow> bool" where
  "has_trailing_comma [] = False"
| "has_trailing_comma (c # cs) =
     (if c = CHR '','' \<and> (case dropWhile py_isspace cs of [] \<Rightarrow> False | b # rest \<Rightarrow> closer b)
      then True else has_trailing_comma cs)"

text \<open>
  The contents of the string literals of a text, read the way the pipeline's own
  scanners read them: a double quote opens a literal, a backslash inside one protects
  the next character, the next unprotected double quote closes it.
\<close>

fun string_values_from :: "bool \<Rightarrow> bool \<Rightarrow> string \<Rightarrow> string \<Rightarrow> string list" where
  "string_values_from in_string escaped acc [] = []"
| "string_values_from in_string escaped acc (ch # rest) =
     (if in_string then
        (if escaped then string_values_from True False (acc @ [ch]) rest
         else if ch = backslash then string_values_from True True (acc @ [ch]) rest
         else if ch = dquote then acc # string_values_from False False [] rest
         else string_values_from True False (acc @ [ch]) rest)
      else if ch = dquote then string_values_from True False [] rest
      else string_values_from False False [] rest)"

definition string_values :: "string \<Rightarrow> string list" where
  "string_values s = string_values_from False False [] s"

text \<open>
  One removal: a comma whose following text, after optional whitespace, starts with a
  closing brace or bracket is deleted, and nothing else changes.
\<close>

inductive trailing_comma_step :: "string \<Rightarrow> string \<Rightarrow> bool" where
  drop_comma: "dropWhile py_isspace cs = b # rest \<Longrightarrow> closer b
     \<Longrightarrow> trailing_comma_step (p @ CHR '','' # cs) (p @ cs)"

text \<open>
  The text without its trailing commas, computed from the right: a comma is dropped
  when what remains after it starts, after optional whitespace, with a closer.
\<close>

fun settle :: "string \<Rightarrow> string" where
  "settle [] = []"
| "settle (c # cs) =
     (let r = settle cs
      in if c = CHR '','' \<and> (case dropWhile py_isspace r of [] \<Rightarrow> False | b # rest \<Rightarrow> closer b)
         then r else c # r)"

subsection \<open>Transient network errors\<close>

text \<open>The two exceptions that \<^verbatim>\<open>_generate_mistral\<close> retries.\<close>

fun transient :: "post_result \<Rightarrow> bool" where
  "transient (ConnectionError e) = True"
| "transient (ChunkedEncodingError e) = True"
| "transient _ = False"

subsection \<open>Logs and collected information\<close>

text \<open>The lines that open an iteration, and how many of them a state's log holds.\<close>

fun is_header :: "log_entry \<Rightarrow> bool" where
  "is_header (Iteration_header n) = True"
| "is_header _ = False"

definition headers :: "state \<Rightarrow> nat" where
  "headers st = length (filter is_header (logs st))"

text \<open>
  The flag \<^verbatim>\<open>weather_unavailable\<close> is only ever stored together with an (empty)
  \<^verbatim>\<open>weather\<close> entry.
\<close>

definition weather_flag_consistent :: "collected_info \<Rightarrow> bool" where
  "weather_flag_consistent ci = (weather_unavailable ci \<longrightarrow> weather ci \<noteq> None)"


section \<open>What each step of the agent leaves unchanged\<close>

lemma log_append_simps [simp]:
  "logs (log_append m st) = logs st @ [m]"
  "collected_info (log_append m st) = collected_info st"
  "action_history (log_append m st) = action_history st"
  by (simp_all add: log_append_def)

lemma record_action_simps [simp]:
  "logs (record_action a i r st) = logs st"
  "collected_info (record_action a i r st) = collected_info st"
  "action_history (record_action a i r st) = action_history st @ [(a, i, r)]"
  by (simp_all add: record_action_def)

lemma headers_log_append [simp]:
  "headers (log_append m st) = (if is_header m then Suc (headers st) else headers st)"
  by (simp add: headers_def)

lemma headers_update [simp]:
  "headers (st\<lparr>collected_info := ci\<rparr>) = headers st"
  "headers (st\<lparr>action_history := h\<rparr>) = headers st"
  "headers (record_action a i r st) = headers st"
  by (simp_all add: headers_def)

lemma execute_geocode_frame:
  "execute_geocode w a st = (st', r) \<Longrightarrow>
     headers st' = headers st \<and> action_history st' = action_history st"
  by (auto simp: execute_geocode_def split: sum.splits if_splits option.splits)

lemma execute_weather_frame:
  "execute_weather w a st = (st', r) \<Longrightarrow>
     headers st' = headers st \<and> action_history st' = action_history st"
  by (auto simp: execute_weather_def split: sum.splits if_splits option.splits)

lemma plan_attempts_frame:
  "plan_attempts validate w m a left st = (st', r) \<Longrightarrow>
     headers st' = headers st \<and> action_history st' = action_history st"
proof (induction left arbitrary: a st)
  case 0
  then show ?case by simp
next
  case (Suc left)
  then show ?case
    by (auto split: sum.splits if_splits simp: Let_def)
qed

lemma execute_plan_frame:
  "execute_plan validate w st = (st', r) \<Longrightarrow>
     headers st' = headers st \<and> action_history st' = action_history st"
  by (auto simp: execute_plan_def Let_def dest!: plan_attempts_frame split: if_splits)

lemma log_issues_frame:
  "log_issues xs st = (st', r) \<Longrightarrow>
     headers st' = headers st \<and> action_history st' = action_history st
     \<and> collected_info st' = collected_info st"
  by (induction xs arbitrary: st) (auto split: sum.splits)

lemma self_correct_body_frame:
  "self_correct_body w i st = (st', r) \<Longrightarrow>
     headers st' = headers st \<and> action_history st' = action_history st
     \<and> collected_info st' = collected_info st"
  by (auto simp: self_correct_body_def Let_def dest!: log_issues_frame
      split: sum.splits if_splits prod.splits)

lemma self_correct_frame:
  "self_correct w i st = (st', r) \<Longrightarrow>
     headers st' = headers st \<and> action_history st' = action_history st
     \<and> collected_info st' = collected_info st"
  by (auto simp: self_correct_def critique_intro_def Let_def dest!: self_correct_body_frame
      split: sum.splits if_splits prod.splits)


lemma override_lines:
  "override ci a inp = (a', inp', lines) \<Longrightarrow> filter is_header lines = []"
  by (auto simp: override_def Let_def split: option.splits if_splits)

lemma iteration_body_frame:
  assumes "iteration_body cfg validate w i st = (st', x)"
  shows "headers st' = headers st"
    and "case x of
           Inl e \<Rightarrow> action_history st' = action_history st
         | Inr None \<Rightarrow> (\<exists>entry. action_history st' = action_history st @ [entry])
         | Inr (Some r) \<Rightarrow>
             action_history st' = action_history st \<and> res_logs r = logs st'
             \<and> res_success r \<and> res_error r = None"
  using assms
  by (auto simp: iteration_body_def Let_def headers_def
      dest!: override_lines execute_geocode_frame execute_weather_frame execute_plan_frame self_correct_frame
      split: sum.splits if_splits prod.splits option.splits)


lemma iteration_frame:
  assumes "iteration cfg validate w i st = (st', ro)"
  shows "headers st' = Suc (headers st)"
    and "case ro of
           None \<Rightarrow> (\<exists>entry. action_history st' = action_history st @ [entry])
         | Some r \<Rightarrow>
             action_history st' = action_history st \<and> res_logs r = logs st'
             \<and> res_error r \<noteq> Some (Literal ''Max iterations'')
             \<and> (\<forall>e. res_error r = Some (Str_of e) \<longrightarrow>
                    res_itinerary r = JObj [] \<and> res_weather r = [] \<and> \<not> res_success r)"
proof -
  obtain st1 x where b:
    "iteration_body cfg validate w i (log_append (Iteration_header (i + 1)) st) = (st1, x)"
    by (cases "iteration_body cfg validate w i (log_append (Iteration_header (i + 1)) st)")
  note f = iteration_body_frame [OF b]
  show "headers st' = Suc (headers st)"
    using assms b f(1) by (cases x) (auto simp: iteration_def Let_def)
  show "case ro of
           None \<Rightarrow> (\<exists>entry. action_history st' = action_history st @ [entry])
         | Some r \<Rightarrow>
             action_history st' = action_history st \<and> res_logs r = logs st'
             \<and> res_error r \<noteq> Some (Literal ''Max iterations'')
             \<and> (\<forall>e. res_error r = Some (Str_of e) \<longrightarrow>
                    res_itinerary r = JObj [] \<and> res_weather r = [] \<and> \<not> res_success r)"
    using assms b f(2)
    by (cases x) (auto simp: iteration_def Let_def split: option.splits)
qed

lemma plan_loop_frame:
  "plan_loop cfg validate env i n st = (st', ro) \<Longrightarrow>
     headers st' \<le> headers st + n
     \<and> (ro = None \<longrightarrow> headers st' = headers st + n)
     \<and> (\<forall>r. ro = Some r \<longrightarrow>
           res_logs r = logs st'
           \<and> res_error r \<noteq> Some (Literal ''Max iterations'')
           \<and> (\<forall>e. res_error r = Some (Str_of e) \<longrightarrow>
                  res_itinerary r = JObj [] \<and> res_weather r = [] \<and> \<not> res_success r))"
proof (induction n arbitrary: i st)
  case 0
  then show ?case by simp
next
  case (Suc n)
  obtain st1 ro1 where it: "iteration cfg validate (env i) i st = (st1, ro1)"
    by (cases "iteration cfg validate (env i) i st")
  note f = iteration_frame [OF it]
  show ?case
  proof (cases ro1)
    case None
    with Suc.prems it have "plan_loop cfg validate env (i + 1) n st1 = (st', ro)" by simp
    from Suc.IH [OF this] f(1) show ?thesis by simp
  next
    case (Some r)
    with Suc.prems it have "st' = st1" "ro = Some r" by simp_all
    with f Some show ?thesis by simp
  qed
qed

text \<open>Every step keeps the weather flag consistent.\<close>

lemma execute_geocode_flag:
  "execute_geocode w a st = (st', r) \<Longrightarrow> weather_flag_consistent (collected_info st)
     \<Longrightarrow> weather_flag_consistent (collected_info st')"
  by (auto simp: execute_geocode_def weather_flag_consistent_def
      split: sum.splits if_splits option.splits)

lemma execute_weather_flag:
  "execute_weather w a st = (st', r) \<Longrightarrow> weather_flag_consistent (collected_info st)
     \<Longrightarrow> weather_flag_consistent (collected_info st')"
  by (auto simp: execute_weather_def weather_flag_consistent_def
      split: sum.splits if_splits option.splits)

lemma plan_attempts_flag:
  "plan_attempts validate w m a left st = (st', r) \<Longrightarrow>
     weather_flag_consistent (collected_info st) \<Longrightarrow> weather_flag_consistent (collected_info st')"
proof (induction left arbitrary: a st)
  case 0
  then show ?case by simp
next
  case (Suc left)
  then show ?case
    by (auto split: sum.splits if_splits simp: Let_def weather_flag_consistent_def)
qed

lemma execute_plan_flag:
  "execute_plan validate w st = (st', r) \<Longrightarrow> weather_flag_consistent (collected_info st)
     \<Longrightarrow> weather_flag_consistent (collected_info st')"
  by (auto simp: execute_plan_def Let_def dest!: plan_attempts_flag split: if_splits)

lemma iteration_body_flag:
  assumes "iteration_body cfg validate w i st = (st', x)"
    and "weather_flag_consistent (collected_info st)"
  shows "weather_flag_consistent (collected_info st')"
  using assms
  by (auto simp: iteration_body_def Let_def
      dest!: execute_geocode_flag execute_weather_flag execute_plan_flag self_correct_frame
      split: sum.splits if_splits prod.splits option.splits)

lemma iteration_flag:
  assumes "iteration cfg validate w i st = (st', ro)"
    and "weather_flag_consistent (collected_info st)"
  shows "weather_flag_consistent (collected_info st')"
proof -
  obtain st1 x where b:
    "iteration_body cfg validate w i (log_append (Iteration_header (i + 1)) st) = (st1, x)"
    by (cases "iteration_body cfg validate w i (log_append (Iteration_header (i + 1)) st)")
  from iteration_body_flag [OF b] assms(2)
  have "weather_flag_consistent (collected_info st1)" by simp
  with assms(1) b show ?thesis
    by (cases x) (auto simp: iteration_def Let_def)
qed

lemma plan_loop_flag:
  "plan_loop cfg validate env i n st = (st', ro) \<Longrightarrow>
     weather_flag_consistent (collected_info st) \<Longrightarrow> weather_flag_consistent (collected_info st')"
proof (induction n arbitrary: i st)
  case 0
  then show ?case by simp
next
  case (Suc n)
  obtain st1 ro1 where it: "iteration cfg validate (env i) i st = (st1, ro1)"
    by (cases "iteration cfg validate (env i) i st")
  from iteration_flag [OF it Suc.prems(2)] have c1: "weather_flag_consistent (collected_info st1)" .
  show ?case
  proof (cases ro1)
    case None
    with Suc.prems it have "plan_loop cfg validate env (i + 1) n st1 = (st', ro)" by simp
    from Suc.IH [OF this c1] show ?thesis .
  next
    case (Some r)
    with Suc.prems it c1 show ?thesis by simp
  qed
qed






lemma plan_attempts_first:
  "plan_call w 0 = Inr reply \<Longrightarrow> validate reply = Inr itin \<Longrightarrow>
   plan_attempts validate w m 0 (Suc left) st =
     (log_append (Note ''OBSERVATION: Itineraire genere'')
        (st\<lparr>collected_info := (collected_info st)\<lparr>itinerary := Some itin\<rparr>\<rparr>), Inr itin)"
  by simp




section \<open>The order of the repair stages\<close>

text \<open>
  C1, as the code has it.  \<^verbatim>\<open>generate_json\<close> is a chain of fallbacks that returns at
  the first stage that parses, in this order: complete-object extraction on the
  fence-stripped reply; direct parse of the raw reply; direct parse of the
  fence-stripped reply; loose extraction between the first opening and the last
  closing brace of the fence-stripped reply.  A failure of the backend call is raised
  as it is.  This holds for every parser \<open>loads\<close>.
\<close>

theorem generate_json_stage_order:
  "(generate 0 = Inl e \<longrightarrow> generate_json loads generate n = Inl e)
   \<and> (generate 0 = Inr r
        \<and> try_loads loads (find_first_complete_json_object (strip_code_fences r)) = Some v
        \<longrightarrow> generate_json loads generate n = Inr v)
   \<and> (generate 0 = Inr r
        \<and> try_loads loads (find_first_complete_json_object (strip_code_fences r)) = None
        \<and> loads r = Some v
        \<longrightarrow> generate_json loads generate n = Inr v)
   \<and> (generate 0 = Inr r
        \<and> try_loads loads (find_first_complete_json_object (strip_code_fences r)) = None
        \<and> loads r = None \<and> loads (strip_code_fences r) = Some v
        \<longrightarrow> generate_json loads generate n = Inr v)
   \<and> (generate 0 = Inr r
        \<and> try_loads loads (find_first_complete_json_object (strip_code_fences r)) = None
        \<and> loads r = None \<and> loads (strip_code_fences r) = None
        \<and> try_loads loads (extract_json_object (strip_code_fences r)) = Some v
        \<longrightarrow> generate_json loads generate n = Inr v)"
  by (simp add: generate_json_def Let_def)

text \<open>
  The stages at work.  Loose extraction differs from complete-object extraction only
  on a text with further material after its first complete object, which no JSON
  parser accepts whole; the parser of the last line below accepts that one text.
\<close>

theorem generate_json_stage_order_witness:
  \<open>generate_json json_loads (\<lambda>k. Inl (RuntimeError Timeout_message)) 1
     = Inl (RuntimeError Timeout_message)
   \<and> generate_json json_loads (\<lambda>k. Inr ''Sure: {"a":1} '') 1 = Inr (JObj [(''a'', JInt 1)])
   \<and> generate_json json_loads (\<lambda>k. Inr ''[1, 2]'') 1 = Inr (JArr [JInt 1, JInt 2])
   \<and> generate_json json_loads (\<lambda>k. Inr ''```json [1, 2] ```'') 1 = Inr (JArr [JInt 1, JInt 2])
   \<and> generate_json (\<lambda>s. if s = ''{"a":1} {"b":2}'' then Some (JInt 2) else None)
        (\<lambda>k. Inr ''see {"a":1} {"b":2}.'') 1 = Inr (JInt 2)\<close>
proof -
  have a: \<open>try_loads json_loads (find_first_complete_json_object
             (strip_code_fences ''Sure: {"a":1} '')) = Some (JObj [(''a'', JInt 1)])\<close>
    by code_simp
  have b: \<open>try_loads json_loads (find_first_complete_json_object (strip_code_fences ''[1, 2]''))
             = None \<and> json_loads ''[1, 2]'' = Some (JArr [JInt 1, JInt 2])\<close>
    by code_simp
  have c: \<open>try_loads json_loads (find_first_complete_json_object
             (strip_code_fences ''```json [1, 2] ```'')) = None
           \<and> json_loads ''```json [1, 2] ```'' = None
           \<and> json_loads (strip_code_fences ''```json [1, 2] ```'') = Some (JArr [JInt 1, JInt 2])\<close>
    by code_simp
  let ?odd = \<open>\<lambda>s. if s = ''{"a":1} {"b":2}'' then Some (JInt 2) else None\<close>
  have d: \<open>try_loads ?odd (find_first_complete_json_object
             (strip_code_fences ''see {"a":1} {"b":2}.'')) = None
           \<and> ?odd ''see {"a":1} {"b":2}.'' = None
           \<and> ?odd (strip_code_fences ''see {"a":1} {"b":2}.'') = None
           \<and> try_loads ?odd (extract_json_object (strip_code_fences ''see {"a":1} {"b":2}.''))
               = Some (JInt 2)\<close>
    by code_simp
  show ?thesis
    using a b c d
      generate_json_stage_order [where loads = json_loads
        and generate = \<open>\<lambda>k. Inl (RuntimeError Timeout_message)\<close>
        and e = \<open>RuntimeError Timeout_message\<close> and n = 1]
      generate_json_stage_order [where loads = json_loads
        and generate = \<open>\<lambda>k. Inr ''Sure: {"a":1} ''\<close> and r = \<open>''Sure: {"a":1} ''\<close>
        and v = \<open>JObj [(''a'', JInt 1)]\<close> and n = 1]
      generate_json_stage_order [where loads = json_loads
        and generate = \<open>\<lambda>k. Inr ''[1, 2]''\<close> and r = \<open>''[1, 2]''\<close>
        and v = \<open>JArr [JInt 1, JInt 2]\<close> and n = 1]
      generate_json_stage_order [where loads = json_loads
        and generate = \<open>\<lambda>k. Inr ''```json [1, 2] ```''\<close> and r = \<open>''```json [1, 2] ```''\<close>
        and v = \<open>JArr [JInt 1, JInt 2]\<close> and n = 1]
      generate_json_stage_order [where loads = ?odd
        and generate = \<open>\<lambda>k. Inr ''see {"a":1} {"b":2}.''\<close> and r = \<open>''see {"a":1} {"b":2}.''\<close>
        and v = \<open>JInt 2\<close> and n = 1]
    by simp
qed

text \<open>
  C1 as stated fails: the reply \<^verbatim>\<open>[{"a":1}]\<close> parses directly, to a list, yet
  \<^verbatim>\<open>generate_json\<close> returns the object inside it, which complete-object extraction
  found first.
\<close>

theorem complete_object_before_direct_parse:
  \<open>json_loads (strip_code_fences ''[{"a":1}]'') = Some (JArr [JObj [(''a'', JInt 1)]])
   \<and> generate_json json_loads (\<lambda>k. Inr ''[{"a":1}]'') 1 = Inr (JObj [(''a'', JInt 1)])\<close>
  by code_simp

section \<open>Complete-object extraction\<close>

text \<open>Completeness: the scanner walks over a string literal and over a balanced stretch.\<close>

lemma scan_string:
  "string_chars t \<Longrightarrow>
   scan_object text start i d True False (t @ dquote # rest)
     = scan_object text start (i + length t + 1) d False False rest"
  by (induction t arbitrary: i rule: string_chars.induct) simp_all

lemma scan_balanced:
  "balanced b \<Longrightarrow> 0 < d \<Longrightarrow>
   scan_object text start i d False False (b @ rest)
     = scan_object text start (i + length b) d False False rest"
proof (induction b arbitrary: i d rest rule: balanced.induct)
  case bal_end
  show ?case by simp
next
  case (bal_plain c s)
  then show ?case by simp
next
  case (bal_string t s)
  have "scan_object text start i d False False ((dquote # t @ dquote # s) @ rest)
      = scan_object text start (i + 1) d True False (t @ dquote # (s @ rest))"
    by simp
  also have "\<dots> = scan_object text start (i + 1 + length t + 1) d False False (s @ rest)"
    by (rule scan_string [OF bal_string.hyps(1)])
  also have "\<dots> = scan_object text start (i + 1 + length t + 1 + length s) d False False rest"
    by (rule bal_string.IH [OF bal_string.prems])
  finally show ?case by (simp add: add.assoc)
next
  case (bal_group b s)
  have d1: "0 < d + 1" using bal_group.prems by simp
  have "scan_object text start i d False False ((CHR ''{'' # b @ CHR ''}'' # s) @ rest)
      = scan_object text start (i + 1) (d + 1) False False (b @ CHR ''}'' # (s @ rest))"
    by simp
  also have "\<dots> = scan_object text start (i + 1 + length b) (d + 1) False False
                      (CHR ''}'' # (s @ rest))"
    by (rule bal_group.IH(1) [OF d1])
  also have "\<dots> = scan_object text start (i + 1 + length b + 1) d False False (s @ rest)"
    using bal_group.prems by simp
  also have "\<dots> = scan_object text start (i + 1 + length b + 1 + length s) d False False rest"
    by (rule bal_group.IH(2) [OF bal_group.prems])
  finally show ?case by (simp add: add.assoc)
qed

lemma py_find_first:
  "c \<notin> set pre \<Longrightarrow> py_find c (pre @ c # rest) = int (length pre)"
  by (induction pre) (auto simp: Let_def)

lemma py_find_split:
  "py_find c s \<noteq> -1 \<Longrightarrow>
   \<exists>pre rest. s = pre @ c # rest \<and> c \<notin> set pre \<and> py_find c s = int (length pre)"
proof (induction s)
  case Nil
  then show ?case by simp
next
  case (Cons x xs)
  show ?case
  proof (cases "x = c")
    case True
    then have "x # xs = [] @ c # xs \<and> c \<notin> set [] \<and> py_find c (x # xs) = int (length ([]::string))"
      by simp
    then show ?thesis by blast
  next
    case False
    with Cons.prems have n: "py_find c xs \<noteq> -1" by (auto simp: Let_def split: if_splits)
    from Cons.IH [OF n] obtain pre rest where
      "xs = pre @ c # rest" "c \<notin> set pre" "py_find c xs = int (length pre)" by blast
    with False n have "x # xs = (x # pre) @ c # rest \<and> c \<notin> set (x # pre)
        \<and> py_find c (x # xs) = int (length (x # pre))"
      by (auto simp: Let_def)
    then show ?thesis by blast
  qed
qed

lemma py_strip_id:
  "s \<noteq> [] \<Longrightarrow> \<not> py_isspace (hd s) \<Longrightarrow> \<not> py_isspace (last s) \<Longrightarrow> py_strip s = s"
proof -
  assume a: "s \<noteq> []" "\<not> py_isspace (hd s)" "\<not> py_isspace (last s)"
  then have 1: "dropWhile py_isspace s = s" by (cases s) auto
  from a have "rev s \<noteq> []" "\<not> py_isspace (hd (rev s))" by (simp_all add: hd_rev)
  then have 2: "dropWhile py_isspace (rev s) = rev s" by (cases "rev s") auto
  show ?thesis by (simp add: py_strip_def 1 2)
qed

lemma py_strip_object: "py_strip (CHR ''{'' # b @ [CHR ''}'']) = CHR ''{'' # b @ [CHR ''}'']"
  by (rule py_strip_id) (simp_all add: py_isspace_def)

lemma find_complete:
  assumes "CHR ''{'' \<notin> set pre" and "object_text obj"
  shows "find_first_complete_json_object (pre @ obj @ suf) = Some obj"
proof -
  from assms(2) obtain b where b: "balanced b" and obj: "obj = CHR ''{'' # b @ [CHR ''}'']"
    by (auto simp: object_text_def)
  let ?text = "pre @ obj @ suf"
  let ?n = "length pre"
  have f: "py_find (CHR ''{'') ?text = int ?n"
    using py_find_first [OF assms(1), of "b @ CHR ''}'' # suf"] by (simp add: obj)
  have d: "drop ?n ?text = CHR ''{'' # b @ CHR ''}'' # suf" by (simp add: obj)
  have "scan_object ?text ?n ?n 0 False False (CHR ''{'' # b @ CHR ''}'' # suf)
      = scan_object ?text ?n (?n + 1) 1 False False (b @ CHR ''}'' # suf)"
    by simp
  also have "\<dots> = scan_object ?text ?n (?n + 1 + length b) 1 False False (CHR ''}'' # suf)"
    by (rule scan_balanced [OF b]) simp
  also have "\<dots> = Some (py_strip (slice ?text ?n (?n + 1 + length b + 1)))"
    by simp
  also have "slice ?text ?n (?n + 1 + length b + 1) = obj"
    by (simp add: slice_def obj)
  finally have "scan_object ?text ?n ?n 0 False False (CHR ''{'' # b @ CHR ''}'' # suf) = Some obj"
    using py_strip_object [of b] by (simp add: obj)
  then show ?thesis
    using f d by (simp add: find_first_complete_json_object_def Let_def obj)
qed


inductive_cases closes_SucE: "closes (Suc k) w"

lemma closes_SucD:
  "closes (Suc k) w \<Longrightarrow> \<exists>b w'. w = b @ CHR ''}'' # w' \<and> balanced b \<and> closes k w'"
  by (erule closes_SucE) blast

lemma closes_plain:
  assumes "closes (Suc k) w" and "c \<noteq> CHR ''{''" and "c \<noteq> CHR ''}''" and "c \<noteq> dquote"
  shows "closes (Suc k) (c # w)"
proof -
  from closes_SucD [OF assms(1)] obtain b w' where
    w: "w = b @ CHR ''}'' # w'" and b: "balanced b" and c: "closes k w'" by blast
  have "balanced (c # b)" using assms(2-4) b by (rule bal_plain)
  from closes_Suc [OF this c] w show ?thesis by simp
qed

lemma closes_string:
  assumes "closes (Suc k) w" and "string_chars t"
  shows "closes (Suc k) (dquote # t @ dquote # w)"
proof -
  from closes_SucD [OF assms(1)] obtain b w' where
    w: "w = b @ CHR ''}'' # w'" and b: "balanced b" and c: "closes k w'" by blast
  have "balanced (dquote # t @ dquote # b)" using assms(2) b by (rule bal_string)
  from closes_Suc [OF this c] w show ?thesis by simp
qed

lemma closes_group:
  assumes "closes (Suc (Suc k)) w"
  shows "closes (Suc k) (CHR ''{'' # w)"
proof -
  from closes_SucD [OF assms] obtain b w' where
    w: "w = b @ CHR ''}'' # w'" and b: "balanced b" and c: "closes (Suc k) w'" by blast
  from closes_SucD [OF c] obtain b2 w2 where
    w': "w' = b2 @ CHR ''}'' # w2" and b2: "balanced b2" and c2: "closes k w2" by blast
  have "balanced (CHR ''{'' # b @ CHR ''}'' # b2)" using b b2 by (rule bal_group)
  from closes_Suc [OF this c2] w w' show ?thesis by simp
qed

lemma closes_close: "closes k w \<Longrightarrow> closes (Suc k) (CHR ''}'' # w)"
  using closes_Suc [OF bal_end] by simp

text \<open>
  Soundness, string mode: a scan that starts inside a string literal and returns has
  read the rest of the literal up to its closing quote, and went on from there.
\<close>

lemma scan_in_string:
  "scan_object text start i d True esc rest = Some r \<Longrightarrow>
   \<exists>t rest1. rest = t @ dquote # rest1
      \<and> (if esc then t \<noteq> [] \<and> string_chars (tl t) else string_chars t)
      \<and> scan_object text start (i + length t + 1) d False False rest1 = Some r"
proof (induction rest arbitrary: i esc)
  case Nil
  then show ?case by simp
next
  case (Cons ch rest)
  show ?case
  proof (cases esc)
    case True
    with Cons.prems have "scan_object text start (i + 1) d True False rest = Some r" by simp
    from Cons.IH [OF this] obtain t rest1 where
      t: "rest = t @ dquote # rest1" "string_chars t"
         "scan_object text start (i + 1 + length t + 1) d False False rest1 = Some r"
      by auto
    then have "ch # rest = (ch # t) @ dquote # rest1 \<and> (ch # t) \<noteq> [] \<and> string_chars (tl (ch # t))
        \<and> scan_object text start (i + length (ch # t) + 1) d False False rest1 = Some r"
      by (simp add: add.commute add.left_commute)
    with True show ?thesis by (intro exI [of _ "ch # t"] exI [of _ rest1]) simp
  next
    case False
    show ?thesis
    proof (cases "ch = backslash")
      case bs: True
      with False Cons.prems have "scan_object text start (i + 1) d True True rest = Some r"
        by simp
      from Cons.IH [OF this] obtain t rest1 where
        t: "rest = t @ dquote # rest1" "t \<noteq> []" "string_chars (tl t)"
           "scan_object text start (i + 1 + length t + 1) d False False rest1 = Some r"
        by auto
      from t(2) obtain c t' where tc: "t = c # t'" by (cases t) auto
      with t(3) have "string_chars (backslash # c # t')" by (simp add: sc_escape)
      with t tc bs have "ch # rest = (ch # t) @ dquote # rest1 \<and> string_chars (ch # t)
        \<and> scan_object text start (i + length (ch # t) + 1) d False False rest1 = Some r"
        by (simp add: add.commute add.left_commute)
      with False show ?thesis by (intro exI [of _ "ch # t"] exI [of _ rest1]) simp
    next
      case nbs: False
      show ?thesis
      proof (cases "ch = dquote")
        case True
        with False nbs Cons.prems
        have "scan_object text start (i + 1) d False False rest = Some r" by simp
        then have "ch # rest = [] @ dquote # rest \<and> string_chars []
          \<and> scan_object text start (i + length ([]::string) + 1) d False False rest = Some r"
          using True by (simp add: sc_end)
        with False show ?thesis by (intro exI [of _ "[]"] exI [of _ rest]) simp
      next
        case ndq: False
        with False nbs Cons.prems
        have "scan_object text start (i + 1) d True False rest = Some r" by simp
        from Cons.IH [OF this] obtain t rest1 where
          t: "rest = t @ dquote # rest1" "string_chars t"
             "scan_object text start (i + 1 + length t + 1) d False False rest1 = Some r"
          by auto
        from nbs ndq t(2) have "string_chars (ch # t)" by (simp add: sc_plain)
        with t have "ch # rest = (ch # t) @ dquote # rest1 \<and> string_chars (ch # t)
          \<and> scan_object text start (i + length (ch # t) + 1) d False False rest1 = Some r"
          by (simp add: add.commute add.left_commute)
        with False show ?thesis by (intro exI [of _ "ch # t"] exI [of _ rest1]) simp
      qed
    qed
  qed
qed

text \<open>Soundness, outside strings: what a returning scan has read closes the open depth.\<close>

lemma scan_normal:
  "scan_object text start i d False False rest = Some r \<Longrightarrow> 0 < d \<Longrightarrow>
   \<exists>w rest2. rest = w @ rest2 \<and> closes (nat d) w
      \<and> r = py_strip (slice text start (i + length w))"
proof (induction "length rest" arbitrary: rest i d rule: less_induct)
  case less
  from less.prems(2) obtain k where k: "nat d = Suc k" by (cases "nat d") auto
  show ?case
  proof (cases rest)
    case Nil
    with less.prems show ?thesis by simp
  next
    case (Cons ch rest')
    show ?thesis
    proof (cases "ch = dquote")
      case True
      with Cons less.prems(1)
      have "scan_object text start (i + 1) d True False rest' = Some r" by simp
      from scan_in_string [OF this] obtain t rest1 where
        t: "rest' = t @ dquote # rest1" "string_chars t"
           "scan_object text start (i + 1 + length t + 1) d False False rest1 = Some r"
        by auto
      have "length rest1 < length rest" using Cons t(1) by simp
      from less.hyps [OF this t(3) less.prems(2)] obtain w1 rest2 where
        w1: "rest1 = w1 @ rest2" "closes (nat d) w1"
            "r = py_strip (slice text start (i + 1 + length t + 1 + length w1))"
        by blast
      have "closes (nat d) (dquote # t @ dquote # w1)"
        using closes_string [OF _ t(2)] w1(2) k by simp
      moreover have "rest = (dquote # t @ dquote # w1) @ rest2"
        using Cons True t(1) w1(1) by simp
      moreover have "r = py_strip (slice text start (i + length (dquote # t @ dquote # w1)))"
        using w1(3) by (simp add: add.commute add.left_commute)
      ultimately show ?thesis by blast
    next
      case ndq: False
      show ?thesis
      proof (cases "ch = CHR ''{''")
        case True
        with Cons ndq less.prems(1)
        have s: "scan_object text start (i + 1) (d + 1) False False rest' = Some r" by simp
        have "length rest' < length rest" using Cons by simp
        moreover have "0 < d + 1" using less.prems(2) by simp
        ultimately obtain w1 rest2 where
          w1: "rest' = w1 @ rest2" "closes (nat (d + 1)) w1"
              "r = py_strip (slice text start (i + 1 + length w1))"
          using less.hyps [OF _ s] by blast
        have "nat (d + 1) = Suc (Suc k)" using k less.prems(2) by simp
        with w1(2) have "closes (nat d) (CHR ''{'' # w1)"
          using closes_group [of k w1] k by simp
        moreover have "rest = (CHR ''{'' # w1) @ rest2" using Cons True w1(1) by simp
        moreover have "r = py_strip (slice text start (i + length (CHR ''{'' # w1)))"
          using w1(3) by (simp add: add.commute add.left_commute)
        ultimately show ?thesis by blast
      next
        case nob: False
        show ?thesis
        proof (cases "ch = CHR ''}''")
          case True
          show ?thesis
          proof (cases "d - 1 = 0")
            case z: True
            with Cons ndq nob True less.prems(1)
            have "r = py_strip (slice text start (i + 1))" by simp
            moreover have "closes (nat d) [CHR ''}'']"
              using closes_close [OF closes_0] z by simp
            moreover have "rest = [CHR ''}''] @ rest'" using Cons True by simp
            ultimately show ?thesis by (intro exI [of _ "[CHR ''}'']"] exI [of _ rest']) simp
          next
            case nz: False
            with Cons ndq nob True less.prems(1)
            have s: "scan_object text start (i + 1) (d - 1) False False rest' = Some r" by simp
            have "length rest' < length rest" using Cons by simp
            moreover have "0 < d - 1" using less.prems(2) nz by simp
            ultimately obtain w1 rest2 where
              w1: "rest' = w1 @ rest2" "closes (nat (d - 1)) w1"
                  "r = py_strip (slice text start (i + 1 + length w1))"
              using less.hyps [OF _ s] by blast
            have "nat d = Suc (nat (d - 1))" using less.prems(2) by simp
            with closes_close [OF w1(2)] have "closes (nat d) (CHR ''}'' # w1)" by simp
            moreover have "rest = (CHR ''}'' # w1) @ rest2" using Cons True w1(1) by simp
            moreover have "r = py_strip (slice text start (i + length (CHR ''}'' # w1)))"
              using w1(3) by (simp add: add.commute add.left_commute)
            ultimately show ?thesis by blast
          qed
        next
          case ncb: False
          with Cons ndq nob less.prems(1)
          have s: "scan_object text start (i + 1) d False False rest' = Some r" by simp
          have "length rest' < length rest" using Cons by simp
          from less.hyps [OF this s less.prems(2)] obtain w1 rest2 where
            w1: "rest' = w1 @ rest2" "closes (nat d) w1"
                "r = py_strip (slice text start (i + 1 + length w1))"
            by blast
          have "closes (nat d) (ch # w1)"
            using closes_plain [of k w1 ch] w1(2) k nob ncb ndq by simp
          moreover have "rest = (ch # w1) @ rest2" using Cons w1(1) by simp
          moreover have "r = py_strip (slice text start (i + length (ch # w1)))"
            using w1(3) by (simp add: add.commute add.left_commute)
          ultimately show ?thesis by blast
        qed
      qed
    qed
  qed
qed

inductive_cases closes_0E: "closes 0 w"

lemma find_sound:
  assumes "find_first_complete_json_object text = Some obj"
  shows "\<exists>pre suf. text = pre @ obj @ suf \<and> CHR ''{'' \<notin> set pre \<and> object_text obj"
proof -
  from assms have f: "py_find (CHR ''{'') text \<noteq> -1"
    by (auto simp: find_first_complete_json_object_def Let_def split: if_splits)
  from py_find_split [OF f] obtain pre rest where
    t: "text = pre @ CHR ''{'' # rest" and p: "CHR ''{'' \<notin> set pre"
    and n: "py_find (CHR ''{'') text = int (length pre)" by blast
  let ?n = "length pre"
  have d: "drop ?n text = CHR ''{'' # rest" using t by simp
  from assms f n d have "scan_object text ?n ?n 0 False False (CHR ''{'' # rest) = Some obj"
    by (auto simp: find_first_complete_json_object_def Let_def split: if_splits)
  then have s: "scan_object text ?n (?n + 1) 1 False False rest = Some obj" by simp
  from scan_normal [OF s] obtain w rest2 where
    w: "rest = w @ rest2" "closes (nat 1) w"
       "obj = py_strip (slice text ?n (?n + 1 + length w))" by auto
  from w(2) have "closes (Suc 0) w" by simp
  from closes_SucD [OF this] obtain b w' where
    b: "w = b @ CHR ''}'' # w'" "balanced b" "closes 0 w'" by blast
  from b(3) have "w' = []" by (rule closes_0E)
  with b have wb: "w = b @ [CHR ''}'']" by simp
  have "slice text ?n (?n + 1 + length w) = CHR ''{'' # b @ [CHR ''}'']"
    using t w(1) wb by (simp add: slice_def)
  with w(3) have o: "obj = CHR ''{'' # b @ [CHR ''}'']" by (simp add: py_strip_object)
  then have "object_text obj" using b(2) by (auto simp: object_text_def)
  moreover have "text = pre @ obj @ rest2" using t w(1) wb o by simp
  ultimately show ?thesis using p by blast
qed

text \<open>
  C2, as the code has it.  Extraction returns a text exactly when the input is a
  prefix without an opening brace (anything else may stand in it, quotes and closing
  braces too), then that text, a depth-balanced object, then an arbitrary suffix.
  So it returns exactly the object that starts at the first opening brace, and nothing
  when that brace is never closed.
\<close>

theorem find_first_complete_json_object_correct:
  "(find_first_complete_json_object s = Some obj)
     = (\<exists>pre suf. s = pre @ obj @ suf \<and> CHR ''{'' \<notin> set pre \<and> object_text obj)"
  using find_sound find_complete by blast

theorem find_first_complete_json_object_correct_witness:
  \<open>find_first_complete_json_object (''said "hi} '' @ ''{"a":"}{"}'' @ '' tail}'')
     = Some ''{"a":"}{"}''
   \<and> find_first_complete_json_object
       (''x} '' @ [CHR ''{'', dquote, backslash, dquote, CHR ''}'', dquote, CHR ''}''] @ ''}'')
     = Some [CHR ''{'', dquote, backslash, dquote, CHR ''}'', dquote, CHR ''}'']
   \<and> find_first_complete_json_object ''{"a": {"b": 1}'' = None\<close>
proof -
  have sa: "string_chars ''a''" by (intro string_chars.intros) simp_all
  have sb: "string_chars ''}{''" by (intro string_chars.intros) simp_all
  have b1: "balanced (dquote # ''}{'' @ dquote # [])"
    using sb bal_end by (rule bal_string)
  have b2: "balanced (CHR '':'' # dquote # ''}{'' @ dquote # [])"
    by (rule bal_plain) (simp_all add: b1 del: append.simps)
  have b3: "balanced (dquote # ''a'' @ dquote # CHR '':'' # dquote # ''}{'' @ dquote # [])"
    using sa b2 by (rule bal_string)
  have o1: \<open>object_text ''{"a":"}{"}''\<close>
    unfolding object_text_def
    using b3
    by (intro exI [of _ "dquote # ''a'' @ dquote # CHR '':'' # dquote # ''}{'' @ dquote # []"])
      simp
  have sc: "string_chars [backslash, dquote, CHR ''}'']"
    by (intro sc_escape sc_plain sc_end) simp_all
  have b4: "balanced (dquote # [backslash, dquote, CHR ''}''] @ dquote # [])"
    using sc bal_end by (rule bal_string)
  have o2: "object_text [CHR ''{'', dquote, backslash, dquote, CHR ''}'', dquote, CHR ''}'']"
    unfolding object_text_def
    using b4
    by (intro exI [of _ "dquote # [backslash, dquote, CHR ''}''] @ dquote # []"]) simp
  have p1: \<open>CHR ''{'' \<notin> set ''said "hi} ''\<close> by simp
  have p2: \<open>CHR ''{'' \<notin> set ''x} ''\<close> by simp
  have t: \<open>find_first_complete_json_object ''{"a": {"b": 1}'' = None\<close> by code_simp
  show ?thesis
    using o1 o2 p1 p2 t
      find_first_complete_json_object_correct
        [where s = \<open>''said "hi} '' @ ''{"a":"}{"}'' @ '' tail}''\<close> and obj = \<open>''{"a":"}{"}''\<close>]
      find_first_complete_json_object_correct
        [where s = \<open>''x} '' @ [CHR ''{'', dquote, backslash, dquote, CHR ''}'', dquote, CHR ''}'']
                       @ ''}''\<close>
           and obj = \<open>[CHR ''{'', dquote, backslash, dquote, CHR ''}'', dquote, CHR ''}'']\<close>]
    by blast
qed

text \<open>
  C2 as stated fails for a prefix that holds an opening brace: in
  \<^verbatim>\<open>see { and {"a":1}\<close> the balanced object \<^verbatim>\<open>{"a":1}\<close> follows the prefix
  \<^verbatim>\<open>see { and \<close>, and extraction returns nothing.
\<close>

theorem prefix_brace_hides_object:
  \<open>''see { and {"a":1}'' = ''see { and '' @ ''{"a":1}'' @ [] \<and> object_text ''{"a":1}''
   \<and> find_first_complete_json_object ''see { and {"a":1}'' = None\<close>
proof -
  have sa: "string_chars ''a''" by (intro string_chars.intros) simp_all
  have b1: "balanced '':1''" by (intro bal_plain bal_end) simp_all
  have b2: "balanced (dquote # ''a'' @ dquote # '':1'')"
    using sa b1 by (rule bal_string)
  have o: \<open>object_text ''{"a":1}''\<close>
    unfolding object_text_def
    using b2 by (intro exI [of _ "dquote # ''a'' @ dquote # '':1''"]) simp
  have n: \<open>find_first_complete_json_object ''see { and {"a":1}'' = None\<close> by code_simp
  from o n show ?thesis by simp
qed

section \<open>Trailing-comma removal\<close>

lemma sub_fixed_no_comma: "trailing_comma_sub s = s \<Longrightarrow> \<not> has_trailing_comma s"
proof (induction s rule: trailing_comma_sub.induct)
  case 1
  show ?case by simp
next
  case (2 c cs)
  show ?case
  proof (cases "c = CHR '',''")
    case False
    with "2.IH"(4) "2.prems" show ?thesis by (simp add: tcs_other del: trailing_comma_sub.simps)
  next
    case True
    show ?thesis
    proof (cases "dropWhile py_isspace cs")
      case Nil
      with True "2.IH"(1) "2.prems" show ?thesis
        by (simp add: tcs_comma_end del: trailing_comma_sub.simps dropWhile_eq_Nil_conv)
    next
      case (Cons b rest)
      show ?thesis
      proof (cases "closer b")
        case False
        with True Cons "2.IH"(3) "2.prems" show ?thesis
          by (simp add: tcs_comma_keep del: trailing_comma_sub.simps)
      next
        case cb: True
        have "length (trailing_comma_sub rest) \<le> length rest"
          by (rule length_trailing_comma_sub)
        then have "length (trailing_comma_sub (c # cs)) < length (c # cs)"
          using True cb length_take_drop_space [OF Cons] tcs_comma_drop [OF Cons cb]
          by (simp del: trailing_comma_sub.simps)
        with "2.prems" show ?thesis by simp
      qed
    qed
  qed
qed

lemma no_comma_sub_fixed: "\<not> has_trailing_comma s \<Longrightarrow> trailing_comma_sub s = s"
proof (induction s)
  case Nil
  show ?case by simp
next
  case (Cons c cs)
  show ?case
  proof (cases "c = CHR '',''")
    case False
    with Cons show ?thesis by (simp add: tcs_other del: trailing_comma_sub.simps)
  next
    case True
    show ?thesis
    proof (cases "dropWhile py_isspace cs")
      case Nil
      with True Cons show ?thesis
        by (simp add: tcs_comma_end del: trailing_comma_sub.simps dropWhile_eq_Nil_conv)
    next
      case dw: (Cons b rest)
      with True Cons.prems have nb: "\<not> closer b" and "\<not> has_trailing_comma cs"
        by (auto split: if_splits)
      with Cons.IH True tcs_comma_keep [OF dw nb] show ?thesis
        by (simp del: trailing_comma_sub.simps)
    qed
  qed
qed

lemma sub_keeps_others:
  "filter (\<lambda>c. c \<noteq> CHR '','') (trailing_comma_sub s) = filter (\<lambda>c. c \<noteq> CHR '','') s"
proof (induction s rule: trailing_comma_sub.induct)
  case 1
  show ?case by simp
next
  case (2 c cs)
  show ?case
  proof (cases "c = CHR '',''")
    case False
    with "2.IH"(4) show ?thesis by (simp add: tcs_other del: trailing_comma_sub.simps)
  next
    case True
    show ?thesis
    proof (cases "dropWhile py_isspace cs")
      case Nil
      with True "2.IH"(1) show ?thesis
        by (simp add: tcs_comma_end del: trailing_comma_sub.simps dropWhile_eq_Nil_conv)
    next
      case (Cons b rest)
      show ?thesis
      proof (cases "closer b")
        case False
        with True Cons "2.IH"(3) show ?thesis
          by (simp add: tcs_comma_keep del: trailing_comma_sub.simps)
      next
        case cb: True
        have cs: "cs = takeWhile py_isspace cs @ b # rest"
          using takeWhile_dropWhile_id [of py_isspace cs] Cons by simp
        have "filter (\<lambda>c. c \<noteq> CHR '','') (trailing_comma_sub rest) = filter (\<lambda>c. c \<noteq> CHR '','') rest"
          using "2.IH"(2) [OF True Cons cb] .
        then have "filter (\<lambda>c. c \<noteq> CHR '','') (takeWhile py_isspace cs @ b # trailing_comma_sub rest)
            = filter (\<lambda>c. c \<noteq> CHR '','') (takeWhile py_isspace cs @ b # rest)"
          by simp
        then show ?thesis
          using True tcs_comma_drop [OF Cons cb] cs by (simp del: trailing_comma_sub.simps)
      qed
    qed
  qed
qed

lemma loop_of_fixed: "trailing_comma_sub s = s \<Longrightarrow> trailing_comma_loop s = s"
  by (subst trailing_comma_loop.simps) simp

lemma loop_of_changed:
  "trailing_comma_sub s \<noteq> s \<Longrightarrow> trailing_comma_loop s = trailing_comma_loop (trailing_comma_sub s)"
  by (subst trailing_comma_loop.simps) simp

lemma loop_fixed: "trailing_comma_sub (trailing_comma_loop s) = trailing_comma_loop s"
proof (induction s rule: trailing_comma_loop.induct)
  case (1 current)
  show ?case
  proof (cases "trailing_comma_sub current = current")
    case True
    then show ?thesis by (simp add: loop_of_fixed)
  next
    case False
    with 1 show ?thesis by (simp add: loop_of_changed)
  qed
qed

lemma loop_keeps_others:
  "filter (\<lambda>c. c \<noteq> CHR '','') (trailing_comma_loop s) = filter (\<lambda>c. c \<noteq> CHR '','') s"
proof (induction s rule: trailing_comma_loop.induct)
  case (1 current)
  show ?case
  proof (cases "trailing_comma_sub current = current")
    case True
    then show ?thesis by (simp add: loop_of_fixed)
  next
    case False
    with 1 show ?thesis by (simp add: loop_of_changed sub_keeps_others)
  qed
qed


text \<open>
  Every pass, and so the whole loop, is a sequence of single removals; and the
  removals, in whatever order they are made, end in one text only.
\<close>

lemma step_prepend:
  "trailing_comma_step s t \<Longrightarrow> trailing_comma_step (q @ s) (q @ t)"
proof (induction rule: trailing_comma_step.induct)
  case (drop_comma cs b rest p)
  from trailing_comma_step.drop_comma [OF drop_comma, of "q @ p"] show ?case by simp
qed

lemma steps_prepend:
  "rtranclp trailing_comma_step s t \<Longrightarrow> rtranclp trailing_comma_step (q @ s) (q @ t)"
proof (induction rule: rtranclp_induct)
  case base
  show ?case by simp
next
  case (step y z)
  from step.IH step_prepend [OF step.hyps(2), of q] show ?case by simp
qed

lemma steps_Cons:
  "rtranclp trailing_comma_step s t \<Longrightarrow> rtranclp trailing_comma_step (c # s) (c # t)"
  using steps_prepend [of s t "[c]"] by simp

lemma sub_steps: "rtranclp trailing_comma_step s (trailing_comma_sub s)"
proof (induction s rule: trailing_comma_sub.induct)
  case 1
  show ?case by simp
next
  case (2 c cs)
  show ?case
  proof (cases "c = CHR '',''")
    case False
    with "2.IH"(4) show ?thesis
      by (simp add: tcs_other steps_Cons del: trailing_comma_sub.simps)
  next
    case True
    show ?thesis
    proof (cases "dropWhile py_isspace cs")
      case Nil
      with True "2.IH"(1) show ?thesis
        by (simp add: tcs_comma_end steps_Cons del: trailing_comma_sub.simps dropWhile_eq_Nil_conv)
    next
      case (Cons b rest)
      show ?thesis
      proof (cases "closer b")
        case False
        with True Cons "2.IH"(3) show ?thesis
          by (simp add: tcs_comma_keep steps_Cons del: trailing_comma_sub.simps)
      next
        case cb: True
        have cs: "cs = (takeWhile py_isspace cs @ [b]) @ rest"
          using takeWhile_dropWhile_id [of py_isspace cs] Cons by simp
        have first: "trailing_comma_step (CHR '','' # cs) cs"
          using drop_comma [OF Cons cb, of "[]"] by simp
        have "rtranclp trailing_comma_step rest (trailing_comma_sub rest)"
          using "2.IH"(2) [OF True Cons cb] .
        from steps_prepend [OF this, of "takeWhile py_isspace cs @ [b]"]
        have "rtranclp trailing_comma_step cs
                (takeWhile py_isspace cs @ b # trailing_comma_sub rest)"
          using cs by simp
        with first have "rtranclp trailing_comma_step (CHR '','' # cs)
                (takeWhile py_isspace cs @ b # trailing_comma_sub rest)"
          by (rule converse_rtranclp_into_rtranclp)
        then show ?thesis
          using True tcs_comma_drop [OF Cons cb] by (simp del: trailing_comma_sub.simps)
      qed
    qed
  qed
qed

lemma loop_steps: "rtranclp trailing_comma_step s (trailing_comma_loop s)"
proof (induction s rule: trailing_comma_loop.induct)
  case (1 current)
  show ?case
  proof (cases "trailing_comma_sub current = current")
    case True
    then show ?thesis by (simp add: loop_of_fixed)
  next
    case False
    from 1 [OF refl False] sub_steps [of current] show ?thesis
      using False by (simp add: loop_of_changed)
  qed
qed

lemma remove_steps: "rtranclp trailing_comma_step s (remove_trailing_commas s)"
  by (simp add: remove_trailing_commas_def loop_steps)


lemma settle_append_cong: "settle x = settle y \<Longrightarrow> settle (p @ x) = settle (p @ y)"
  by (induction p) (simp_all add: Let_def)

lemma comma_not_space: "\<not> py_isspace (CHR '','')"
  by (simp add: py_isspace_def)

lemma comma_not_closer: "\<not> closer (CHR '','')"
  by (simp add: closer_def)

lemma closer_not_space: "closer b \<Longrightarrow> \<not> py_isspace b"
  by (auto simp: closer_def py_isspace_def)

lemma settle_keeps_closer:
  "dropWhile py_isspace cs = b # rest \<Longrightarrow> closer b \<Longrightarrow>
   \<exists>rest'. dropWhile py_isspace (settle cs) = b # rest'"
proof (induction cs)
  case Nil
  then show ?case by simp
next
  case (Cons c cs)
  show ?case
  proof (cases "py_isspace c")
    case True
    then have nc: "c \<noteq> CHR '',''" using comma_not_space by auto
    from True Cons.prems have "dropWhile py_isspace cs = b # rest" by simp
    from Cons.IH [OF this Cons.prems(2)] obtain rest' where
      "dropWhile py_isspace (settle cs) = b # rest'" by blast
    with True nc show ?thesis by (simp add: Let_def)
  next
    case False
    with Cons.prems have cb: "c = b" by simp
    then have nc: "c \<noteq> CHR '',''" using Cons.prems(2) comma_not_closer by auto
    with False cb show ?thesis by (simp add: Let_def)
  qed
qed

lemma settle_step: "trailing_comma_step s t \<Longrightarrow> settle s = settle t"
proof (induction rule: trailing_comma_step.induct)
  case (drop_comma cs b rest p)
  from settle_keeps_closer [OF drop_comma] obtain rest' where
    "dropWhile py_isspace (settle cs) = b # rest'" by blast
  with drop_comma(2) have "settle (CHR '','' # cs) = settle cs" by (simp add: Let_def)
  then show ?case by (rule settle_append_cong)
qed

lemma settle_steps: "rtranclp trailing_comma_step s t \<Longrightarrow> settle s = settle t"
  by (induction rule: rtranclp_induct) (simp_all add: settle_step)

lemma settle_fixed: "\<not> has_trailing_comma t \<Longrightarrow> settle t = t"
  by (induction t) (auto simp: Let_def split: if_splits list.splits)

lemma steps_unique:
  assumes "rtranclp trailing_comma_step s t" and "\<not> has_trailing_comma t"
  shows "t = remove_trailing_commas s"
proof -
  have fx: "trailing_comma_sub (trailing_comma_loop s) = trailing_comma_loop s"
    by (rule loop_fixed)
  have n: "\<not> has_trailing_comma (remove_trailing_commas s)"
    using sub_fixed_no_comma [OF fx] by (simp add: remove_trailing_commas_def)
  have "t = settle t" using settle_fixed [OF assms(2)] by simp
  also have "\<dots> = settle s" using settle_steps [OF assms(1)] by simp
  also have "\<dots> = settle (remove_trailing_commas s)" using settle_steps [OF remove_steps] .
  also have "\<dots> = remove_trailing_commas s" using settle_fixed [OF n] .
  finally show ?thesis .
qed

text \<open>
  C3, as the code has it.  Trailing-comma removal is idempotent.  It removes only
  commas that precede, after optional whitespace, a closing brace or bracket: its
  result is reached from the input by single removals of such commas, has no such
  comma left, and is the only text with these two properties; every character that
  is not a comma stays, in order, and a text without such a comma is returned as it
  is.  The removal does not look at string literals: a comma inside a string value
  that is followed by optional whitespace and a closer is removed like any other.
\<close>

theorem remove_trailing_commas_idempotent_complete:
  "remove_trailing_commas (remove_trailing_commas s) = remove_trailing_commas s
   \<and> rtranclp trailing_comma_step s (remove_trailing_commas s)
   \<and> \<not> has_trailing_comma (remove_trailing_commas s)
   \<and> (rtranclp trailing_comma_step s t \<and> \<not> has_trailing_comma t
        \<longrightarrow> t = remove_trailing_commas s)
   \<and> filter (\<lambda>c. c \<noteq> CHR '','') (remove_trailing_commas s) = filter (\<lambda>c. c \<noteq> CHR '','') s
   \<and> (\<not> has_trailing_comma s \<longrightarrow> remove_trailing_commas s = s)"
proof -
  have fx: "trailing_comma_sub (trailing_comma_loop s) = trailing_comma_loop s"
    by (rule loop_fixed)
  have n: "\<not> has_trailing_comma (remove_trailing_commas s)"
    using sub_fixed_no_comma [OF fx] by (simp add: remove_trailing_commas_def)
  have "trailing_comma_loop (trailing_comma_loop s) = trailing_comma_loop s"
    using loop_of_fixed [OF fx] .
  then have i: "remove_trailing_commas (remove_trailing_commas s) = remove_trailing_commas s"
    by (simp add: remove_trailing_commas_def)
  have k: "filter (\<lambda>c. c \<noteq> CHR '','') (remove_trailing_commas s)
             = filter (\<lambda>c. c \<noteq> CHR '','') s"
    by (simp add: remove_trailing_commas_def loop_keeps_others)
  have u: "\<not> has_trailing_comma s \<longrightarrow> remove_trailing_commas s = s"
    using loop_of_fixed [OF no_comma_sub_fixed] by (simp add: remove_trailing_commas_def)
  from i n k u remove_steps [of s] steps_unique [of s t] show ?thesis by blast
qed

theorem remove_trailing_commas_idempotent_complete_witness:
  \<open>remove_trailing_commas (remove_trailing_commas ''{"a":1,"b":[2,],}'') = ''{"a":1,"b":[2]}''
   \<and> \<not> has_trailing_comma ''{"a":1,"b":[2]}''
   \<and> remove_trailing_commas ''{"a":1,"b":[2]}'' = ''{"a":1,"b":[2]}''
   \<and> trailing_comma_step ''[1,]'' ''[1]''
   \<and> remove_trailing_commas ''[1,]'' = ''[1]''\<close>
proof -
  have r: \<open>remove_trailing_commas ''{"a":1,"b":[2,],}'' = ''{"a":1,"b":[2]}''\<close>
    by (simp add: remove_trailing_commas_def py_isspace_def closer_def loop_of_fixed
        loop_of_changed)
  have n: \<open>\<not> has_trailing_comma ''{"a":1,"b":[2]}''\<close>
    by (simp add: py_isspace_def closer_def)
  have m: \<open>\<not> has_trailing_comma ''[1]''\<close>
    by (simp add: py_isspace_def closer_def)
  have st: \<open>trailing_comma_step ''[1,]'' ''[1]''\<close>
    using drop_comma [of \<open>'']''\<close> \<open>CHR '']''\<close> \<open>[]\<close> \<open>''[1''\<close>]
    by (simp add: closer_def py_isspace_def)
  then have sts: \<open>rtranclp trailing_comma_step ''[1,]'' ''[1]''\<close>
    by (rule r_into_rtranclp)
  show ?thesis
    using n m st sts
      remove_trailing_commas_idempotent_complete [of \<open>''{"a":1,"b":[2,],}''\<close>]
      remove_trailing_commas_idempotent_complete [of \<open>''{"a":1,"b":[2]}''\<close>]
      remove_trailing_commas_idempotent_complete [of \<open>''[1,]''\<close> \<open>''[1]''\<close>]
    unfolding r by simp
qed

text \<open>
  C3 as stated fails: in the JSON text \<^verbatim>\<open>{"k": "v,}"}\<close> the only comma lies inside
  the string value \<^verbatim>\<open>v,}\<close>, and trailing-comma removal deletes it.
\<close>

theorem remove_trailing_commas_alters_string_value:
  \<open>string_values ''{"k": "v,}"}'' = [''k'', ''v,}'']
   \<and> remove_trailing_commas ''{"k": "v,}"}'' = ''{"k": "v}"}''
   \<and> string_values (remove_trailing_commas ''{"k": "v,}"}'') = [''k'', ''v}'']\<close>
  by (simp add: string_values_def remove_trailing_commas_def py_isspace_def closer_def
      loop_of_fixed loop_of_changed)

section \<open>The planning loop is bounded\<close>

text \<open>
  C4.  Whatever the backend and the tools answer, a run of \<^verbatim>\<open>plan_trip\<close> opens at most
  \<^verbatim>\<open>max_iterations\<close> iterations (5 by default); the function is total, so the run
  always ends.  When the loop runs through all its iterations without returning,
  the result has \<^verbatim>\<open>success = False\<close>, the itinerary of the collected information (or
  the empty dictionary), the error \<^verbatim>\<open>"Max iterations"\<close>, and exactly \<^verbatim>\<open>max_iterations\<close>
  iterations were opened; no other run reports that error.
\<close>

theorem plan_trip_bounded:
  "length (filter is_header (res_logs (snd (plan_trip cfg validate env req))))
     \<le> nat (max_iterations cfg)
   \<and> (snd (plan_loop cfg validate env 0 (nat (max_iterations cfg)) (initial_state req)) = None
        \<longrightarrow> \<not> res_success (snd (plan_trip cfg validate env req))
            \<and> res_error (snd (plan_trip cfg validate env req)) = Some (Literal ''Max iterations'')
            \<and> res_itinerary (snd (plan_trip cfg validate env req))
                = itinerary_or_empty (fst (plan_trip cfg validate env req))
            \<and> length (filter is_header (res_logs (snd (plan_trip cfg validate env req))))
                = nat (max_iterations cfg))
   \<and> (snd (plan_loop cfg validate env 0 (nat (max_iterations cfg)) (initial_state req)) \<noteq> None
        \<longrightarrow> res_error (snd (plan_trip cfg validate env req)) \<noteq> Some (Literal ''Max iterations''))"
proof -
  obtain st ro where l:
    "plan_loop cfg validate env 0 (nat (max_iterations cfg)) (initial_state req) = (st, ro)"
    by (cases "plan_loop cfg validate env 0 (nat (max_iterations cfg)) (initial_state req)")
  have h0: "headers (initial_state req) = 0"
    by (simp add: headers_def initial_state_def)
  note f = plan_loop_frame [OF l]
  show ?thesis
  proof (cases ro)
    case None
    with l f h0 show ?thesis
      by (simp add: plan_trip_def max_iterations_result_def headers_def
          itinerary_or_empty_def Let_def)
  next
    case (Some r)
    with l f h0 show ?thesis
      by (simp add: plan_trip_def headers_def)
  qed
qed

theorem plan_trip_bounded_witness:
  "max_iterations default_config = 5
   \<and> snd (plan_loop default_config model_validate_dump (\<lambda>i. proposing ''DANCE'' (JObj [])) 0
            (nat (max_iterations default_config)) (initial_state paris_request)) = None
   \<and> \<not> res_success (snd (plan_trip default_config model_validate_dump
            (\<lambda>i. proposing ''DANCE'' (JObj [])) paris_request))
   \<and> res_error (snd (plan_trip default_config model_validate_dump
            (\<lambda>i. proposing ''DANCE'' (JObj [])) paris_request)) = Some (Literal ''Max iterations'')
   \<and> length (filter is_header (res_logs (snd (plan_trip default_config model_validate_dump
            (\<lambda>i. proposing ''DANCE'' (JObj [])) paris_request)))) = 5
   \<and> snd (plan_loop default_config model_validate_dump (\<lambda>i. proposing ''FINISH'' (JObj [])) 0
            (nat (max_iterations default_config)) (initial_state paris_request)) \<noteq> None
   \<and> res_error (snd (plan_trip default_config model_validate_dump
            (\<lambda>i. proposing ''FINISH'' (JObj [])) paris_request)) \<noteq> Some (Literal ''Max iterations'')
   \<and> length (filter is_header (res_logs (snd (plan_trip default_config model_validate_dump
            (\<lambda>i. proposing ''FINISH'' (JObj [])) paris_request)))) \<le> 5"
proof -
  have m: "nat (max_iterations default_config) = 5"
    by (simp add: default_config_def)
  have d: "snd (plan_loop default_config model_validate_dump (\<lambda>i. proposing ''DANCE'' (JObj [])) 0
            (nat (max_iterations default_config)) (initial_state paris_request)) = None"
    by code_simp
  have f: "snd (plan_loop default_config model_validate_dump (\<lambda>i. proposing ''FINISH'' (JObj [])) 0
            (nat (max_iterations default_config)) (initial_state paris_request)) \<noteq> None"
    by code_simp
  show ?thesis
    using d f m
      plan_trip_bounded [where cfg = default_config and validate = model_validate_dump
        and env = "\<lambda>i. proposing ''DANCE'' (JObj [])" and req = paris_request]
      plan_trip_bounded [where cfg = default_config and validate = model_validate_dump
        and env = "\<lambda>i. proposing ''FINISH'' (JObj [])" and req = paris_request]
    by (simp add: default_config_def)
qed

section \<open>The override rules\<close>

text \<open>
  C5.  The resolved action is a function of the proposed action and the collected
  information alone (the proposed input plays no part in it).  With a geocode result
  stored, a proposed \<^verbatim>\<open>GEOCODE\<close> resolves to \<^verbatim>\<open>WEATHER\<close>, with the stored latitude and
  longitude and the request's dates as input, when no weather entry is stored, and to
  \<^verbatim>\<open>PLAN\<close> when weather is stored or marked unavailable.  A proposed \<^verbatim>\<open>WEATHER\<close> resolves
  to \<^verbatim>\<open>PLAN\<close> when weather is stored and not marked unavailable, and when it is marked
  unavailable.  The mark never stands without a stored (empty) weather entry: that
  holds of the state before every iteration of every run.
\<close>

theorem override_resolution:
  "(geocode ci = Some g \<and> weather ci = None \<longrightarrow>
      fst (override ci (JStr ''GEOCODE'') input) = JStr ''WEATHER''
      \<and> fst (snd (override ci (JStr ''GEOCODE'') input))
          = JObj [(''lat'', lat g), (''lon'', lon g),
                  (''start_date'', JStr (start_date ci)), (''end_date'', JStr (end_date ci))])
   \<and> (geocode ci = Some g \<and> weather_flag_consistent ci
        \<and> (weather ci \<noteq> None \<or> weather_unavailable ci) \<longrightarrow>
      fst (override ci (JStr ''GEOCODE'') input) = JStr ''PLAN'')
   \<and> ((weather ci \<noteq> None \<and> \<not> weather_unavailable ci) \<or> weather_unavailable ci \<longrightarrow>
      fst (override ci (JStr ''WEATHER'') input) = JStr ''PLAN'')
   \<and> fst (override ci action input) = fst (override ci action input')
   \<and> weather_flag_consistent
       (collected_info (fst (plan_loop cfg validate env 0 n (initial_state req))))"
proof -
  have "weather_flag_consistent (collected_info (initial_state req))"
    by (simp add: weather_flag_consistent_def initial_state_def)
  then have "weather_flag_consistent
       (collected_info (fst (plan_loop cfg validate env 0 n (initial_state req))))"
    using plan_loop_flag [of cfg validate env 0 n "initial_state req"]
    by (cases "plan_loop cfg validate env 0 n (initial_state req)") auto
  then show ?thesis
    by (auto simp: override_def Let_def weather_flag_consistent_def split: option.splits)
qed

theorem override_resolution_witness:
  "fst (override ((collected_info (initial_state paris_request))\<lparr>geocode := Some paris_geo\<rparr>)
          (JStr ''GEOCODE'') (JObj [(''city'', JStr ''Paris'')])) = JStr ''WEATHER''
   \<and> fst (snd (override ((collected_info (initial_state paris_request))\<lparr>geocode := Some paris_geo\<rparr>)
          (JStr ''GEOCODE'') (JObj [(''city'', JStr ''Paris'')]))) = weather_input
   \<and> fst (override ((collected_info (initial_state paris_request))
             \<lparr>geocode := Some paris_geo, weather := Some [], weather_unavailable := True\<rparr>)
          (JStr ''GEOCODE'') (JObj [(''city'', JStr ''Paris'')])) = JStr ''PLAN''
   \<and> fst (override ((collected_info (initial_state paris_request))
             \<lparr>weather := Some [], weather_unavailable := True\<rparr>)
          (JStr ''WEATHER'') weather_input) = JStr ''PLAN''
   \<and> fst (override ((collected_info (initial_state paris_request))\<lparr>weather := Some [cold_day]\<rparr>)
          (JStr ''WEATHER'') weather_input) = JStr ''PLAN''"
proof -
  let ?ci = "collected_info (initial_state paris_request)"
  have a: "geocode (?ci\<lparr>geocode := Some paris_geo\<rparr>) = Some paris_geo
           \<and> weather (?ci\<lparr>geocode := Some paris_geo\<rparr>) = None"
    by (simp add: initial_state_def)
  have b: "geocode (?ci\<lparr>geocode := Some paris_geo, weather := Some [], weather_unavailable := True\<rparr>)
             = Some paris_geo
           \<and> weather_flag_consistent
               (?ci\<lparr>geocode := Some paris_geo, weather := Some [], weather_unavailable := True\<rparr>)
           \<and> weather_unavailable
               (?ci\<lparr>geocode := Some paris_geo, weather := Some [], weather_unavailable := True\<rparr>)"
    by (simp add: weather_flag_consistent_def)
  have c: "weather_unavailable (?ci\<lparr>weather := Some [], weather_unavailable := True\<rparr>)"
    by simp
  have d: "weather (?ci\<lparr>weather := Some [cold_day]\<rparr>) \<noteq> None
           \<and> \<not> weather_unavailable (?ci\<lparr>weather := Some [cold_day]\<rparr>)"
    by (simp add: initial_state_def)
  have dates: "start_date ?ci = ''2025-12-20'' \<and> end_date ?ci = ''2025-12-22''"
    by (simp add: initial_state_def paris_request_def)
  show ?thesis
    using a b c d dates
      override_resolution [where ci = "?ci\<lparr>geocode := Some paris_geo\<rparr>" and g = paris_geo
        and input = "JObj [(''city'', JStr ''Paris'')]"]
      override_resolution [where ci = "?ci\<lparr>geocode := Some paris_geo, weather := Some [],
        weather_unavailable := True\<rparr>" and g = paris_geo
        and input = "JObj [(''city'', JStr ''Paris'')]"]
      override_resolution [where ci = "?ci\<lparr>weather := Some [], weather_unavailable := True\<rparr>"
        and input = weather_input]
      override_resolution [where ci = "?ci\<lparr>weather := Some [cold_day]\<rparr>"
        and input = weather_input]
    by (simp add: weather_input_def paris_geo_def)
qed

section \<open>The action history\<close>











section \<open>The transport's failures\<close>

text \<open>
  A timeout is raised at once, at whatever attempt it happens, with no further wait.
\<close>

lemma timeout_is_fatal:
  "post attempt = Timeout \<Longrightarrow>
   mistral_attempts post max_retries attempt (Suc left) sleeps
     = (Inl (RuntimeError Timeout_message), sleeps)"
  by simp

text \<open>
  A transient network error at an attempt before the last makes the loop wait
  three time units per attempt made so far and try again; at the last attempt it
  is raised.
\<close>

lemma transient_retried:
  "transient (post attempt) \<Longrightarrow> int attempt < int max_retries - 1 \<Longrightarrow>
   mistral_attempts post max_retries attempt (Suc left) sleeps
     = mistral_attempts post max_retries (attempt + 1) left (sleeps @ [(attempt + 1) * 3])"
  by (cases "post attempt") simp_all

lemma transient_exhausted:
  "post 0 = ConnectionError e0 \<Longrightarrow> post 1 = ConnectionError e1 \<Longrightarrow>
   post 2 = ConnectionError e2 \<Longrightarrow> post 3 = ConnectionError e3 \<Longrightarrow>
   post 4 = ConnectionError e4 \<Longrightarrow>
   generate_mistral post = (Inl (RuntimeError (Network_message 5 e4)), [3, 6, 9, 12])"
  by (simp add: generate_mistral_def eval_nat_numeral)

lemma first_success_returned:
  "post 0 = ConnectionError e0 \<Longrightarrow> post 1 = Content c \<Longrightarrow>
   generate_mistral post = (Inr (Some (py_strip c)), [3])"
  by (simp add: generate_mistral_def eval_nat_numeral)

text \<open>
  In general: the loop of \<^verbatim>\<open>_generate_mistral\<close> never runs out without returning or
  raising, and the waits of a call are 3, 6, 9, ... for at most four retries.
\<close>

lemma attempts_never_run_out:
  "attempt + left = max_retries \<Longrightarrow> 0 < left \<Longrightarrow>
   fst (mistral_attempts post max_retries attempt left sleeps) \<noteq> Inr None"
proof (induction left arbitrary: attempt sleeps)
  case 0
  then show ?case by simp
next
  case (Suc left)
  show ?case
  proof (cases "transient (post attempt) \<and> int attempt < int max_retries - 1")
    case True
    then have "0 < left" using Suc.prems by auto
    moreover have "(attempt + 1) + left = max_retries" using Suc.prems by simp
    ultimately have "fst (mistral_attempts post max_retries (attempt + 1) left
        (sleeps @ [(attempt + 1) * 3])) \<noteq> Inr None"
      by (rule Suc.IH [rotated])
    with True show ?thesis by (cases "post attempt") simp_all
  next
    case False
    then show ?thesis by (cases "post attempt") auto
  qed
qed

lemma attempts_sleeps:
  "\<exists>n. snd (mistral_attempts post max_retries attempt left sleeps)
          = sleeps @ map (\<lambda>k. (k + 1) * 3) [attempt..<attempt + n]
        \<and> n \<le> left \<and> (n = 0 \<or> int (attempt + n) \<le> int max_retries - 1)"
proof (induction left arbitrary: attempt sleeps)
  case 0
  show ?case by (intro exI [of _ 0]) simp
next
  case (Suc left)
  show ?case
  proof (cases "transient (post attempt) \<and> int attempt < int max_retries - 1")
    case True
    from Suc.IH [of "attempt + 1" "sleeps @ [(attempt + 1) * 3]"] obtain n where
      n: "snd (mistral_attempts post max_retries (attempt + 1) left (sleeps @ [(attempt + 1) * 3]))
            = (sleeps @ [(attempt + 1) * 3]) @ map (\<lambda>k. (k + 1) * 3) [attempt + 1..<attempt + 1 + n]"
         "n \<le> left" "n = 0 \<or> int (attempt + 1 + n) \<le> int max_retries - 1"
      by blast
    have step: "mistral_attempts post max_retries attempt (Suc left) sleeps
        = mistral_attempts post max_retries (attempt + 1) left (sleeps @ [(attempt + 1) * 3])"
      using True by (cases "post attempt") simp_all
    have u: "[attempt..<attempt + Suc n] = attempt # [attempt + 1..<attempt + 1 + n]"
      by (simp add: upt_rec)
    have "snd (mistral_attempts post max_retries attempt (Suc left) sleeps)
        = sleeps @ map (\<lambda>k. (k + 1) * 3) [attempt..<attempt + Suc n]"
      unfolding step n(1) u by simp
    moreover have "Suc n \<le> Suc left" using n(2) by simp
    moreover have "int (attempt + Suc n) \<le> int max_retries - 1"
      using n(3) True by auto
    ultimately show ?thesis by (intro exI [of _ "Suc n"]) simp
  next
    case False
    then have "snd (mistral_attempts post max_retries attempt (Suc left) sleeps) = sleeps"
      by (cases "post attempt") auto
    then show ?thesis by (intro exI [of _ 0]) simp
  qed
qed

lemma generate_mistral_returns: "fst (generate_mistral post) \<noteq> Inr None"
  using attempts_never_run_out [of 0 5 5 post "[]"] by (simp add: generate_mistral_def)

lemma generate_mistral_waits:
  "\<exists>n \<le> 4. snd (generate_mistral post) = map (\<lambda>k. (k + 1) * 3) [0..<n]"
proof -
  from attempts_sleeps [of post 5 0 5 "[]"] obtain n where
    n: "snd (mistral_attempts post 5 0 5 []) = map (\<lambda>k. (k + 1) * 3) [0..<n]"
       "n = 0 \<or> int n \<le> 4" by auto
  then have "n \<le> 4" by auto
  with n(1) show ?thesis by (auto simp: generate_mistral_def)
qed

text \<open>
  The handler of \<^verbatim>\<open>HTTPError\<close> reads the status as
  \<^verbatim>\<open>e.response.status_code if e.response else "unknown"\<close>.  The truth value of a
  response with an error status is false, so the status of every response that
  \<^verbatim>\<open>raise_for_status\<close> rejects is read as \<^verbatim>\<open>"unknown"\<close>.
\<close>

lemma error_status_unknown:
  "400 \<le> status_code r \<Longrightarrow> status_code r < 600 \<Longrightarrow>
   http_error_message (Some r) e = Http_message Unknown e"
  by (simp add: http_error_message_def http_error_status_def response_bool_def)

text \<open>
  C7 fails on the code for the rate-limit and authentication errors.  A reply with
  status 429, one with status 401 and one with status 500 all end in the same
  \<^verbatim>\<open>RuntimeError\<close>, the generic HTTP message with the status \<^verbatim>\<open>"unknown"\<close>; the
  messages written for 429 and 401 are never raised for such a reply.  (None of
  them is retried or waited for.)
\<close>

theorem http_errors_not_distinguished:
  "generate_mistral (\<lambda>attempt. HTTPError (Some \<lparr>status_code = 429\<rparr>) e)
     = (Inl (RuntimeError (Http_message Unknown e)), [])
   \<and> generate_mistral (\<lambda>attempt. HTTPError (Some \<lparr>status_code = 401\<rparr>) e)
     = (Inl (RuntimeError (Http_message Unknown e)), [])
   \<and> generate_mistral (\<lambda>attempt. HTTPError (Some \<lparr>status_code = 500\<rparr>) e)
     = (Inl (RuntimeError (Http_message Unknown e)), [])"
  by (simp add: generate_mistral_def eval_nat_numeral error_status_unknown)

section \<open>Self-correction\<close>



section \<open>The corrected itinerary\<close>

text \<open>
  C9 fails on the code.  \<^verbatim>\<open>_execute_plan\<close> validates the plan against the schema;
  \<^verbatim>\<open>_self_correct\<close> returns the reply of the correction request as it was parsed,
  without validating it.  In the run below the plan validates, the critique reports
  the itinerary invalid, and the correction request answers \<^verbatim>\<open>{"foo": 1}\<close>: the run
  succeeds with that object as its itinerary, although the schema rejects it.
\<close>

theorem corrected_itinerary_not_validated:
  "res_itinerary (snd (plan_trip default_config model_validate_dump
       (\<lambda>i. (proposing ''PLAN'' (JObj []))
               \<lparr>plan_call := (\<lambda>attempt. Inr empty_plan),
                critique_call :=
                  Inr (JObj [(''is_valid'', JBool False), (''issues'', JArr []),
                             (''suggestions'', JArr [])]),
                corrector_call := Inr (JObj [(''foo'', JInt 1)])\<rparr>)
       paris_request)) = JObj [(''foo'', JInt 1)]
   \<and> res_success (snd (plan_trip default_config model_validate_dump
       (\<lambda>i. (proposing ''PLAN'' (JObj []))
               \<lparr>plan_call := (\<lambda>attempt. Inr empty_plan),
                critique_call :=
                  Inr (JObj [(''is_valid'', JBool False), (''issues'', JArr []),
                             (''suggestions'', JArr [])]),
                corrector_call := Inr (JObj [(''foo'', JInt 1)])\<rparr>)
       paris_request))
   \<and> model_validate_dump (JObj [(''foo'', JInt 1)]) = Inl ValidationError
   \<and> model_validate_dump empty_plan = Inr empty_itinerary"
  by code_simp

section \<open>The result of an aborted run\<close>



end
